theory Spec2Isabelle
  imports Main
begin

section \<open>Strings and characters of the JavaScript runtime\<close>

text \<open>
  The server module (\<^verbatim>\<open>formatDate\<close>, \<^verbatim>\<open>generateInitials\<close>, \<^verbatim>\<open>parseFormData\<close>,
  \<^verbatim>\<open>parseFormRecord\<close>, \<^verbatim>\<open>formatDateToMonthDayYear\<close>) works on JavaScript strings.
  A string is modelled as a list of characters; a character is a code unit in the range
  0..255 (the OCR engine is configured with a whitelist of form-alphabet characters).
  Character tests are written on the character code, as the regular-expression classes
  of the source are ranges of codes.
\<close>

definition code :: "char \<Rightarrow> nat" where
  "code c = of_char c"

definition in_rng :: "char \<Rightarrow> char \<Rightarrow> char \<Rightarrow> bool" where
  "in_rng lo hi c = (code lo \<le> code c \<and> code c \<le> code hi)"

definition is_digit :: "char \<Rightarrow> bool" where
  "is_digit c = in_rng (CHR ''0'') (CHR ''9'') c"

definition is_upper :: "char \<Rightarrow> bool" where
  "is_upper c = in_rng (CHR ''A'') (CHR ''Z'') c"

definition is_lower :: "char \<Rightarrow> bool" where
  "is_lower c = in_rng (CHR ''a'') (CHR ''z'') c"

text \<open>\<^verbatim>\<open>\s\<close> and \<^verbatim>\<open>trim\<close>: TAB, LF, VT, FF, CR, space and the no-break space.\<close>

definition is_space :: "char \<Rightarrow> bool" where
  "is_space c = (in_rng (CHR 0x09) (CHR 0x0D) c \<or> c = CHR 0x20 \<or> c = CHR 0xA0)"

text \<open>\<^verbatim>\<open>\w\<close>, used by the word boundary \<^verbatim>\<open>\b\<close>.\<close>

definition is_word :: "char \<Rightarrow> bool" where
  "is_word c = (is_lower c \<or> is_upper c \<or> is_digit c \<or> c = CHR ''_'')"

text \<open>
  \<^verbatim>\<open>toLowerCase\<close> on one character: the ASCII capitals and the Latin-1 capitals
  (0xC0..0xDE without the multiplication sign 0xD7) move up by 32.
\<close>

definition lower_char :: "char \<Rightarrow> char" where
  "lower_char c =
     (if is_upper c \<or> (in_rng (CHR 0xC0) (CHR 0xDE) c \<and> c \<noteq> CHR 0xD7)
      then char_of (code c + 32) else c)"

definition toLowerCase :: "string \<Rightarrow> string" where
  "toLowerCase s = map lower_char s"

text \<open>
  The other case of a letter, for a regular expression with the \<^verbatim>\<open>i\<close> flag. Every
  pattern of the source is written with ASCII characters, and the runtime never
  identifies a non-ASCII character with an ASCII one, so folding the ASCII letters is
  exact.
\<close>

definition swap_case :: "char \<Rightarrow> char" where
  "swap_case c =
     (if is_lower c then char_of (code c - 32)
      else if is_upper c then char_of (code c + 32) else c)"

text \<open>\<^verbatim>\<open>String.prototype.trim\<close>.\<close>

definition trim :: "string \<Rightarrow> string" where
  "trim s = rev (dropWhile is_space (rev (dropWhile is_space s)))"

text \<open>\<^verbatim>\<open>s.split('\n')\<close>: the pieces between line feeds; the empty string gives one empty piece.\<close>

fun split_nl :: "string \<Rightarrow> string list" where
  "split_nl [] = [[]]"
| "split_nl (c # cs) =
     (if c = CHR 0x0A then [] # split_nl cs
      else (case split_nl cs of [] \<Rightarrow> [[c]] | p # ps \<Rightarrow> (c # p) # ps))"

text \<open>\<^verbatim>\<open>xs.join('\n')\<close>.\<close>

fun join_nl :: "string list \<Rightarrow> string" where
  "join_nl [] = []"
| "join_nl [x] = x"
| "join_nl (x # y # ys) = x @ [CHR 0x0A] @ join_nl (y # ys)"

text \<open>\<^verbatim>\<open>s.replace(/\s+/g, ' ')\<close>: every maximal run of white space becomes one space.\<close>

function collapse_ws :: "string \<Rightarrow> string" where
  "collapse_ws [] = []"
| "collapse_ws (c # cs) =
     (if is_space c then CHR 0x20 # collapse_ws (dropWhile is_space cs)
      else c # collapse_ws cs)"
  by pat_completeness auto
termination
  by (relation "measure length") (auto simp: less_Suc_eq_le length_dropWhile_le)

text \<open>
  \<^verbatim>\<open>s.split(/\s+/)\<close>: the pieces between maximal runs of white space. A run at the
  start or at the end leaves an empty piece there.
\<close>

function split_ws :: "string \<Rightarrow> string list" where
  "split_ws [] = [[]]"
| "split_ws (c # cs) =
     (if is_space c then [] # split_ws (dropWhile is_space cs)
      else (case split_ws cs of [] \<Rightarrow> [[c]] | p # ps \<Rightarrow> (c # p) # ps))"
  by pat_completeness auto
termination
  by (relation "measure length") (auto simp: less_Suc_eq_le length_dropWhile_le)

text \<open>\<^verbatim>\<open>s.indexOf(t)\<close>, with -1 when \<^verbatim>\<open>t\<close> does not occur, and \<^verbatim>\<open>s.includes(t)\<close>.\<close>

fun index_from :: "string \<Rightarrow> string \<Rightarrow> nat \<Rightarrow> int" where
  "index_from t [] i = (if t = [] then int i else -1)"
| "index_from t (c # cs) i =
     (if take (length t) (c # cs) = t then int i else index_from t cs (Suc i))"

definition indexOf :: "string \<Rightarrow> string \<Rightarrow> int" where
  "indexOf s t = index_from t s 0"

definition str_includes :: "string \<Rightarrow> string \<Rightarrow> bool" where
  "str_includes s t = (indexOf s t \<noteq> -1)"

text \<open>\<^verbatim>\<open>s.substring(i)\<close>: a negative start counts as 0.\<close>

definition substring_from :: "string \<Rightarrow> int \<Rightarrow> string" where
  "substring_from s i = drop (nat i) s"

text \<open>Decimal numerals: \<^verbatim>\<open>parseInt(s, 10)\<close> on a run of digits, and \<^verbatim>\<open>n.toString()\<close>.\<close>

definition digit_val :: "char \<Rightarrow> nat" where
  "digit_val c = code c - 48"

definition digits_val :: "string \<Rightarrow> nat" where
  "digits_val s = foldl (\<lambda>n c. 10 * n + digit_val c) 0 s"

text \<open>
  \<^verbatim>\<open>parseInt(s, 10)\<close> reads the leading digits of its argument. Every call of the
  source passes a capture group of the shape \<^verbatim>\<open>\d{1,2}\<close>, \<^verbatim>\<open>\d{2,4}\<close> or \<^verbatim>\<open>\d{4}\<close>,
  so the result is a number, never NaN.
\<close>

definition parseInt :: "string \<Rightarrow> nat" where
  "parseInt s = digits_val (takeWhile is_digit s)"

definition digit_char :: "nat \<Rightarrow> char" where
  "digit_char d = char_of (48 + d)"

function toString :: "nat \<Rightarrow> string" where
  "toString n =
     (if n < 10 then [digit_char n] else toString (n div 10) @ [digit_char (n mod 10)])"
  by pat_completeness auto
termination
  by (relation "measure id") auto

declare toString.simps [simp del]

text \<open>\<^verbatim>\<open>s.padStart(2, '0')\<close>.\<close>

definition padStart2 :: "string \<Rightarrow> string" where
  "padStart2 s = replicate (2 - length s) (CHR ''0'') @ s"

section \<open>Regular expressions\<close>

text \<open>
  The patterns of the source use character classes, the anchors \<^verbatim>\<open>^\<close> and \<^verbatim>\<open>$\<close>, the
  word boundary \<^verbatim>\<open>\b\<close>, sequence, alternation, capture groups and greedy quantifiers.
  A class is a negation flag and a list of code ranges.
\<close>

datatype re =
    Cls bool "(char \<times> char) list"
  | Bol
  | Eol
  | Wb
  | Eps
  | Cat re re
  | Alt re re
  | Grp nat re
  | Rep re nat "nat option"

text \<open>
  A matcher state: the consumed input (last character first), the input still to be read
  and the capture groups set so far (latest first).
\<close>

record mstate =
  pre :: string
  rest :: string
  caps :: "(nat \<times> string) list"

definition in_ranges :: "(char \<times> char) list \<Rightarrow> char \<Rightarrow> bool" where
  "in_ranges rs c = list_ex (\<lambda>r. in_rng (fst r) (snd r) c) rs"

text \<open>
  With the \<^verbatim>\<open>i\<close> flag a character belongs to a class when some member of the class has
  the same canonical form: the character itself or its other ASCII case.
\<close>

definition cls_match :: "bool \<Rightarrow> bool \<Rightarrow> (char \<times> char) list \<Rightarrow> char \<Rightarrow> bool" where
  "cls_match ic neg rs c =
     (let found = (in_ranges rs c \<or> (ic \<and> in_ranges rs (swap_case c)))
      in if neg then \<not> found else found)"

text \<open>
  A greedy quantifier with at least \<open>lo\<close> and at most \<open>n\<close> more iterations of the body
  \<open>f\<close>. The longer matches come first. Once the minimum is reached, an iteration that
  consumes nothing is rejected, as the runtime does.
\<close>

fun rep :: "(mstate \<Rightarrow> mstate list) \<Rightarrow> nat \<Rightarrow> nat \<Rightarrow> mstate \<Rightarrow> mstate list" where
  "rep f lo 0 st = (if lo = 0 then [st] else [])"
| "rep f lo (Suc n) st =
     concat (map (\<lambda>st'. if lo = 0 \<and> length (rest st') = length (rest st) then []
                         else rep f (lo - 1) n st') (f st))
     @ (if lo = 0 then [st] else [])"

text \<open>
  All the ways a pattern matches at a state, in the order in which the backtracking
  matcher of the runtime tries them: the head of the list is the match the runtime
  reports. An unbounded quantifier runs at most once per remaining character beyond its
  minimum, since each further iteration consumes input.
\<close>

fun ms :: "bool \<Rightarrow> re \<Rightarrow> mstate \<Rightarrow> mstate list" where
  "ms ic (Cls neg rs) st =
     (case rest st of
        [] \<Rightarrow> []
      | c # cs \<Rightarrow> if cls_match ic neg rs c then [st\<lparr>pre := c # pre st, rest := cs\<rparr>] else [])"
| "ms ic Bol st = (if pre st = [] then [st] else [])"
| "ms ic Eol st = (if rest st = [] then [st] else [])"
| "ms ic Wb st =
     (if (pre st \<noteq> [] \<and> is_word (hd (pre st))) \<noteq> (rest st \<noteq> [] \<and> is_word (hd (rest st)))
      then [st] else [])"
| "ms ic Eps st = [st]"
| "ms ic (Cat r1 r2) st = concat (map (ms ic r2) (ms ic r1 st))"
| "ms ic (Alt r1 r2) st = ms ic r1 st @ ms ic r2 st"
| "ms ic (Grp i r) st =
     map (\<lambda>st'. st'\<lparr>caps := (i, take (length (rest st) - length (rest st')) (rest st)) # caps st'\<rparr>)
       (ms ic r st)"
| "ms ic (Rep r lo hi) st =
     rep (ms ic r) lo (case hi of None \<Rightarrow> lo + length (rest st) | Some h \<Rightarrow> h) st"

text \<open>
  The result of \<^verbatim>\<open>s.match(re)\<close> for a pattern without the \<^verbatim>\<open>g\<close> flag: the index
  of the leftmost match, the matched text and the capture groups.
\<close>

record rmatch =
  m_index :: nat
  m_text :: string
  m_caps :: "(nat \<times> string) list"

fun search :: "bool \<Rightarrow> re \<Rightarrow> string \<Rightarrow> string \<Rightarrow> rmatch option" where
  "search ic r p [] =
     (case ms ic r \<lparr>pre = p, rest = [], caps = []\<rparr> of
        [] \<Rightarrow> None
      | st # _ \<Rightarrow> Some \<lparr>m_index = length p, m_text = [], m_caps = caps st\<rparr>)"
| "search ic r p (c # cs) =
     (case ms ic r \<lparr>pre = p, rest = c # cs, caps = []\<rparr> of
        [] \<Rightarrow> search ic r (c # p) cs
      | st # _ \<Rightarrow> Some \<lparr>m_index = length p,
                        m_text = take (length (c # cs) - length (rest st)) (c # cs),
                        m_caps = caps st\<rparr>)"

definition re_match :: "bool \<Rightarrow> re \<Rightarrow> string \<Rightarrow> rmatch option" where
  "re_match ic r s = search ic r [] s"

definition re_test :: "bool \<Rightarrow> re \<Rightarrow> string \<Rightarrow> bool" where
  "re_test ic r s = (re_match ic r s \<noteq> None)"

text \<open>
  \<^verbatim>\<open>m[i]\<close> for a capture group. In every pattern of the source whose groups are read,
  each group takes part in every match, so the value is a string.
\<close>

definition grp :: "rmatch \<Rightarrow> nat \<Rightarrow> string" where
  "grp m i = (case map_of (m_caps m) i of None \<Rightarrow> [] | Some s \<Rightarrow> s)"

text \<open>Pattern notation.\<close>

definition ch :: "char \<Rightarrow> re" where
  "ch c = Cls False [(c, c)]"

definition seq :: "re list \<Rightarrow> re" where
  "seq rs = foldr Cat rs Eps"

definition alts :: "re list \<Rightarrow> re" where
  "alts rs = foldr Alt (butlast rs) (last rs)"

definition lit :: "string \<Rightarrow> re" where
  "lit s = seq (map ch s)"

definition dig :: re where
  "dig = Cls False [(CHR ''0'', CHR ''9'')]"

definition ws :: re where
  "ws = Cls False [(CHR 0x09, CHR 0x0D), (CHR 0x20, CHR 0x20), (CHR 0xA0, CHR 0xA0)]"

definition alpha :: re where
  "alpha = Cls False [(CHR ''A'', CHR ''Z''), (CHR ''a'', CHR ''z'')]"

definition star :: "re \<Rightarrow> re" where
  "star r = Rep r 0 None"

definition plus :: "re \<Rightarrow> re" where
  "plus r = Rep r 1 None"

definition opt :: "re \<Rightarrow> re" where
  "opt r = Rep r 0 (Some 1)"

definition rept :: "re \<Rightarrow> nat \<Rightarrow> nat \<Rightarrow> re" where
  "rept r lo hi = Rep r lo (Some hi)"

section \<open>The date normalizer: \<^verbatim>\<open>formatDate\<close>\<close>

definition monthNames :: "string list list" where
  "monthNames =
     [[''january'', ''jan''],
      [''february'', ''feb''],
      [''march'', ''mar''],
      [''april'', ''apr''],
      [''may''],
      [''june'', ''jun''],
      [''july'', ''jul''],
      [''august'', ''aug''],
      [''september'', ''sep'', ''sept''],
      [''october'', ''oct''],
      [''november'', ''nov''],
      [''december'', ''dec'']]"

text \<open>\<^verbatim>\<open>s.startsWith(t)\<close>.\<close>

definition startsWith :: "string \<Rightarrow> string \<Rightarrow> bool" where
  "startsWith s t = (take (length t) s = t)"

text \<open>
  The loop that looks for the first row of \<^verbatim>\<open>monthNames\<close> with a name that is a prefix
  of the month text; \<open>None\<close> is the source's \<^verbatim>\<open>monthIndex\<close> of -1.
\<close>

fun month_index_from :: "string list list \<Rightarrow> nat \<Rightarrow> string \<Rightarrow> nat option" where
  "month_index_from [] i monthText = None"
| "month_index_from (names # others) i monthText =
     (if list_ex (\<lambda>name. startsWith monthText name) names then Some i
      else month_index_from others (Suc i) monthText)"

definition month_index :: "string \<Rightarrow> nat option" where
  "month_index monthText = month_index_from monthNames 0 monthText"

text \<open>\<^verbatim>\<open>/(?:([a-z]+)\.?\s+(\d{1,2})(?:[a-z]{0,2})?(?:,?\s+|\s+,\s+)(\d{2,4}))/i\<close>\<close>

definition textDateRegex :: re where
  "textDateRegex =
     seq [Grp 1 (plus (Cls False [(CHR ''a'', CHR ''z'')])),
          opt (ch (CHR ''.'')),
          plus ws,
          Grp 2 (rept dig 1 2),
          opt (rept (Cls False [(CHR ''a'', CHR ''z'')]) 0 2),
          Alt (seq [opt (ch (CHR '','')), plus ws]) (seq [plus ws, ch (CHR '',''), plus ws]),
          Grp 3 (rept dig 2 4)]"

text \<open>\<^verbatim>\<open>/(\d{1,2})\s*\/\s*(\d{1,2})\s*\/\s*(\d{2,4})/\<close>\<close>

definition usDateRegex :: re where
  "usDateRegex =
     seq [Grp 1 (rept dig 1 2), star ws, ch (CHR ''/''), star ws,
          Grp 2 (rept dig 1 2), star ws, ch (CHR ''/''), star ws,
          Grp 3 (rept dig 2 4)]"

text \<open>\<^verbatim>\<open>/(\d{1,2})[.-](\d{1,2})[.-](\d{2,4})/\<close>\<close>

definition euDateRegex :: re where
  "euDateRegex =
     seq [Grp 1 (rept dig 1 2), Cls False [(CHR ''.'', CHR ''.''), (CHR ''-'', CHR ''-'')],
          Grp 2 (rept dig 1 2), Cls False [(CHR ''.'', CHR ''.''), (CHR ''-'', CHR ''-'')],
          Grp 3 (rept dig 2 4)]"

text \<open>\<^verbatim>\<open>/([a-z]+)\.?\s+(\d{2,4})/i\<close> (the browser copy of \<^verbatim>\<open>formatDate\<close> only)\<close>

definition monthYearRegex :: re where
  "monthYearRegex =
     seq [Grp 1 (plus (Cls False [(CHR ''a'', CHR ''z'')])),
          opt (ch (CHR ''.'')),
          plus ws,
          Grp 2 (rept dig 2 4)]"

text \<open>Two-digit years: below 50 is 20xx, from 50 on is 19xx.\<close>

definition expand_year :: "nat \<Rightarrow> nat" where
  "expand_year year = (if year < 100 then (if year < 50 then 2000 + year else 1900 + year) else year)"

text \<open>The template \<^verbatim>\<open>`${a.toString().padStart(2, '0')}/${b.toString().padStart(2, '0')}/${year}`\<close>.\<close>

definition slashed :: "nat \<Rightarrow> nat \<Rightarrow> nat \<Rightarrow> string" where
  "slashed a b year =
     padStart2 (toString a) @ ''/'' @ padStart2 (toString b) @ ''/'' @ toString year"

text \<open>The branch of the textual form; \<open>None\<close> when the branch does not return.\<close>

definition text_date :: "string \<Rightarrow> string option" where
  "text_date input =
     (case re_match True textDateRegex input of
        None \<Rightarrow> None
      | Some textMatch \<Rightarrow>
          (let monthText = toLowerCase (grp textMatch 1);
               day = parseInt (grp textMatch 2);
               year = expand_year (parseInt (grp textMatch 3))
           in case month_index monthText of
                None \<Rightarrow> None
              | Some monthIndex \<Rightarrow> Some (slashed (monthIndex + 1) day year)))"

definition us_date :: "string \<Rightarrow> string option" where
  "us_date input =
     (case re_match False usDateRegex input of
        None \<Rightarrow> None
      | Some usMatch \<Rightarrow>
          (let month = parseInt (grp usMatch 1);
               day = parseInt (grp usMatch 2);
               year = expand_year (parseInt (grp usMatch 3))
           in Some (slashed month day year)))"

definition eu_date :: "string \<Rightarrow> string option" where
  "eu_date input =
     (case re_match False euDateRegex input of
        None \<Rightarrow> None
      | Some euMatch \<Rightarrow>
          (let day = parseInt (grp euMatch 1);
               month = parseInt (grp euMatch 2);
               year = expand_year (parseInt (grp euMatch 3))
           in if day > 12 \<and> month \<le> 12 then Some (slashed month day year)
              else Some (slashed day month year)))"

definition month_year_date :: "string \<Rightarrow> string option" where
  "month_year_date input =
     (case re_match True monthYearRegex input of
        None \<Rightarrow> None
      | Some monthYearMatch \<Rightarrow>
          (let monthText = toLowerCase (grp monthYearMatch 1);
               year = expand_year (parseInt (grp monthYearMatch 2))
           in case month_index monthText of
                None \<Rightarrow> None
              | Some monthIndex \<Rightarrow>
                  Some (padStart2 (toString (monthIndex + 1)) @ ''/15/'' @ toString year)))"

text \<open>\<^verbatim>\<open>formatDate\<close> of the server module.\<close>

definition formatDate :: "string \<Rightarrow> string" where
  "formatDate input0 =
     (if trim input0 = [] then []
      else
        (let input = collapse_ws (trim input0)
         in case text_date input of
              Some r \<Rightarrow> r
            | None \<Rightarrow>
                (case us_date input of
                   Some r \<Rightarrow> r
                 | None \<Rightarrow>
                     (case eu_date input of
                        Some r \<Rightarrow> r
                      | None \<Rightarrow> input))))"

text \<open>
  \<^verbatim>\<open>formatDate\<close> of the browser utilities: the same three forms, then the form
  "Month Year", which takes the 15th as the day.
\<close>

definition formatDate_client :: "string \<Rightarrow> string" where
  "formatDate_client input0 =
     (if trim input0 = [] then []
      else
        (let input = collapse_ws (trim input0)
         in case text_date input of
              Some r \<Rightarrow> r
            | None \<Rightarrow>
                (case us_date input of
                   Some r \<Rightarrow> r
                 | None \<Rightarrow>
                     (case eu_date input of
                        Some r \<Rightarrow> r
                      | None \<Rightarrow>
                          (case month_year_date input of
                             Some r \<Rightarrow> r
                           | None \<Rightarrow> input)))))"

section \<open>The name initializer: \<^verbatim>\<open>generateInitials\<close>\<close>

definition suffixes :: "string list" where
  "suffixes = [''jr'', ''sr'', ''ii'', ''iii'', ''iv'', ''v'', ''vi'']"

text \<open>\<^verbatim>\<open>part.replace(/[^a-zA-Z0-9.]/g, '')\<close>\<close>

definition normalize_part :: "string \<Rightarrow> string" where
  "normalize_part part =
     filter (\<lambda>c. is_lower c \<or> is_upper c \<or> is_digit c \<or> c = CHR ''.'') part"

text \<open>The function mapped over the parts of the name.\<close>

definition initial_of :: "string \<Rightarrow> string" where
  "initial_of part =
     (let normalizedPart = normalize_part part
      in if length normalizedPart = 0 then []
         else if length normalizedPart = 1 then normalizedPart @ ''.''
         else if List.member suffixes (toLowerCase normalizedPart) then normalizedPart @ ''.''
         else if List.member normalizedPart (CHR ''.'') then
           (if last normalizedPart = CHR ''.'' then normalizedPart else normalizedPart @ ''.'')
         else [hd normalizedPart] @ ''.'')"

definition name_parts :: "string \<Rightarrow> string list" where
  "name_parts name = filter (\<lambda>part. length part > 0) (split_ws (trim name))"

definition generateInitials :: "string \<Rightarrow> string" where
  "generateInitials name =
     (if trim name = [] then []
      else
        (let parts = name_parts name
         in if length parts = 1 \<and> length (hd parts) = 1 then hd parts @ ''.''
            else if length parts = 0 then []
            else concat (filter (\<lambda>initial. length initial > 0) (map initial_of parts))))"

section \<open>Services of the JavaScript runtime\<close>

text \<open>
  \<^verbatim>\<open>s.match(re)\<close> for a pattern with the \<^verbatim>\<open>g\<close> flag: the texts of all matches, each
  search starting where the previous match ended (one character further after an empty
  match). The empty list is the source's \<^verbatim>\<open>null\<close>.
\<close>

lemma search_index: "search ic r p s = Some m \<Longrightarrow> length p \<le> m_index m"
proof (induction s arbitrary: p)
  case Nil
  then show ?case by (auto split: list.splits)
next
  case (Cons c cs)
  show ?case
  proof (cases "ms ic r \<lparr>pre = p, rest = c # cs, caps = []\<rparr>")
    case Nil
    with Cons.prems have "search ic r (c # p) cs = Some m" by simp
    from Cons.IH [OF this] show ?thesis by simp
  next
    case (Cons st sts)
    with Cons.prems show ?thesis by auto
  qed
qed

function match_all_from :: "bool \<Rightarrow> re \<Rightarrow> string \<Rightarrow> nat \<Rightarrow> string list" where
  "match_all_from ic r whole pos =
     (if pos > length whole then []
      else
        (case search ic r (rev (take pos whole)) (drop pos whole) of
           None \<Rightarrow> []
         | Some m \<Rightarrow>
             m_text m #
             match_all_from ic r whole
               (if m_text m = [] then m_index m + 1 else m_index m + length (m_text m))))"
  by pat_completeness auto
termination
proof (relation "measure (\<lambda>(ic, r, whole, pos). Suc (length whole) - pos)", goal_cases)
  case 1
  show ?case by simp
next
  case (2 ic r whole pos m)
  from search_index [OF 2(2)] 2(1) have "pos \<le> m_index m" by simp
  moreover have "m_text m \<noteq> [] \<Longrightarrow> 0 < length (m_text m)" by simp
  ultimately show ?case using 2(1) by (auto simp: not_less simp del: length_greater_0_conv)
qed

declare match_all_from.simps [simp del]

definition match_all :: "bool \<Rightarrow> re \<Rightarrow> string \<Rightarrow> string list" where
  "match_all ic r s = match_all_from ic r s 0"

text \<open>
  A date of the runtime, as its getters show it: \<^verbatim>\<open>getMonth()\<close> (0 for January),
  \<^verbatim>\<open>getDate()\<close> and \<^verbatim>\<open>getFullYear()\<close>.
\<close>

record js_date =
  d_month :: nat
  d_date :: nat
  d_year :: int

text \<open>
  What the module takes from the runtime and this development does not define: the
  constructor \<^verbatim>\<open>new Date(year, monthIndex, day)\<close>, the constructor \<^verbatim>\<open>new Date(string)\<close>
  with its implementation-defined parser (\<open>None\<close> is the invalid date, whose time value
  is NaN), and the floating-point expression
  \<^verbatim>\<open>(parseFloat(basic) * 1000000 + parseFloat(insurance)).toString()\<close>.
\<close>

record runtime =
  date_of_parts :: "nat \<Rightarrow> int \<Rightarrow> nat \<Rightarrow> js_date option"
  date_of_string :: "string \<Rightarrow> js_date option"
  total_of :: "string \<Rightarrow> string \<Rightarrow> string"

definition int_toString :: "int \<Rightarrow> string" where
  "int_toString i = (if i < 0 then ''-'' @ toString (nat (- i)) else toString (nat i))"

text \<open>
  \<^verbatim>\<open>(parseFloat(s) / 1000000).toFixed(3)\<close> for a capture group \<^verbatim>\<open>\d{1,4}\<close>. The group
  denotes an integer \<open>n\<close> below 10000, which is a double. The quotient is the double
  nearest to \<open>n / 1000000\<close> (ties to even): with \<open>sh\<close> the least shift that brings the
  quotient to 53 bits it is \<open>m / 2 ^ sh\<close>. \<^verbatim>\<open>toFixed(3)\<close> takes the integer \<open>k\<close> with
  \<open>k / 1000\<close> nearest to that double, the larger one of two, and prints it with three
  decimals.
\<close>

definition div_million :: "int \<Rightarrow> int \<times> nat" where
  "div_million n =
     (if n = 0 then (0, 0)
      else
        (let sh = hd (filter (\<lambda>sh. 2 ^ 52 \<le> n * 2 ^ sh div 1000000) [0..<73]);
             q = n * 2 ^ sh div 1000000;
             r = n * 2 ^ sh mod 1000000;
             m = (if 2 * r > 1000000 \<or> (2 * r = 1000000 \<and> odd q) then q + 1 else q)
         in (m, sh)))"

definition toFixed3 :: "int \<times> nat \<Rightarrow> string" where
  "toFixed3 x =
     (let k = (2000 * fst x + 2 ^ snd x) div 2 ^ (snd x + 1);
          m = toString (nat k);
          z = replicate (4 - length m) (CHR ''0'') @ m
      in take (length z - 3) z @ ''.'' @ drop (length z - 3) z)"

definition scaled_basic :: "string \<Rightarrow> string" where
  "scaled_basic s = toFixed3 (div_million (int (digits_val (takeWhile is_digit s))))"

section \<open>The field schema\<close>

text \<open>
  The record under construction is a JavaScript object: its keys in insertion order with
  their values. Assigning to a key that exists keeps its place; assigning to a new key
  appends it. Every key the module reads is one of the 24 keys of the object literal, so
  a lookup never yields \<^verbatim>\<open>undefined\<close>.
\<close>

type_synonym fields = "(string \<times> string) list"

definition fget :: "fields \<Rightarrow> string \<Rightarrow> string" where
  "fget fs k = (case map_of fs k of None \<Rightarrow> [] | Some v \<Rightarrow> v)"

fun fset :: "string \<Rightarrow> string \<Rightarrow> fields \<Rightarrow> fields" where
  "fset k v [] = [(k, v)]"
| "fset k v (kv # fs) = (if fst kv = k then (k, v) # fs else kv # fset k v fs)"

text \<open>The object literal at the head of \<^verbatim>\<open>parseFormRecord\<close>.\<close>

definition default_fields :: fields where
  "default_fields =
     [(''FORM NO'', []),
      (''RECORD NO'', []),
      (''SALES DATE'', []),
      (''CUSTOMER NAME'', []),
      (''INITIALS'', []),
      (''E-MAIL ADDRESS'', []),
      (''DEALER NAME'', []),
      (''CUSTOMER ADDRESS'', []),
      (''CITY'', []),
      (''STATE'', []),
      (''CUSTOMER PHONE'', []),
      (''DEALER PHONE'', []),
      (''DELIVERY TIME'', []),
      (''INVOICE NO'', []),
      (''INSURANCE POLICY NO'', []),
      (''CHESIS NO'', []),
      (''BASIC AMOUNT'', []),
      (''INSURANCE AMOUNT'', []),
      (''TOTAL AMOUNT'', []),
      (''DISCOUNT'', []),
      (''NET AMOUNT'', []),
      (''EMPLOYER'', []),
      (''CREDIT CARD NO'', []),
      (''REMARK'', [])]"

text \<open>The statement \<^verbatim>\<open>fields[k] = fields[k] || v\<close>.\<close>

definition fill :: "string \<Rightarrow> string \<Rightarrow> fields \<Rightarrow> fields" where
  "fill k v fs = fset k (if fget fs k = [] then v else fget fs k) fs"

text \<open>A block of such statements, first to last.\<close>

definition fill_all :: "(string \<times> string) list \<Rightarrow> fields \<Rightarrow> fields" where
  "fill_all table fs = foldl (\<lambda>acc kv. fill (fst kv) (snd kv) acc) fs table"

section \<open>The field extractor: \<^verbatim>\<open>parseFormRecord\<close>\<close>

subsection \<open>Patterns\<close>

definition upper :: re where
  "upper = Cls False [(CHR ''A'', CHR ''Z'')]"

definition lowerc :: re where
  "lowerc = Cls False [(CHR ''a'', CHR ''z'')]"

text \<open>\<^verbatim>\<open>/^([A-Za-z]+\s+\d{1,2},?\s*\d{4}|[A-Za-z]+\s*\d{1,2}\s*[\d]{4})/i\<close>\<close>

definition salesDateRegex :: re where
  "salesDateRegex =
     seq [Bol,
          Grp 1 (Alt (seq [plus alpha, plus ws, rept dig 1 2, opt (ch (CHR '','')), star ws, rept dig 4 4])
                     (seq [plus alpha, star ws, rept dig 1 2, star ws, rept dig 4 4]))]"

text \<open>\<^verbatim>\<open>/([a-zA-Z0-9._%+-]+@[a-zA-Z0-9.-]+\.[a-zA-Z]{2,})/i\<close>\<close>

definition emailRegex :: re where
  "emailRegex =
     Grp 1 (seq [plus (Cls False [(CHR ''a'', CHR ''z''), (CHR ''A'', CHR ''Z''), (CHR ''0'', CHR ''9''),
                                  (CHR ''.'', CHR ''.''), (CHR ''_'', CHR ''_''), (CHR ''%'', CHR ''%''),
                                  (CHR ''+'', CHR ''+''), (CHR ''-'', CHR ''-'')]),
                 ch (CHR ''@''),
                 plus (Cls False [(CHR ''a'', CHR ''z''), (CHR ''A'', CHR ''Z''), (CHR ''0'', CHR ''9''),
                                  (CHR ''.'', CHR ''.''), (CHR ''-'', CHR ''-'')]),
                 ch (CHR ''.''),
                 Rep alpha 2 None])"

text \<open>\<^verbatim>\<open>/([A-Z][A-Za-z]*\.?\s+[A-Z][A-Za-z]*(?:\s+[A-Z][A-Za-z]*)?)/\<close>\<close>

definition customerNameRegex :: re where
  "customerNameRegex =
     Grp 1 (seq [upper, star alpha, opt (ch (CHR ''.'')), plus ws, upper, star alpha,
                 opt (seq [plus ws, upper, star alpha])])"

text \<open>\<^verbatim>\<open>/(\d+[^,]+(?:St|Ave|Dr|Rd|Blvd|Lane|Trail|Ct|Road|Avenue|Drive|Street|Boulevard))/i\<close>\<close>

definition addressRegex :: re where
  "addressRegex =
     Grp 1 (seq [plus dig, plus (Cls True [(CHR '','', CHR '','')]),
                 alts [lit ''St'', lit ''Ave'', lit ''Dr'', lit ''Rd'', lit ''Blvd'', lit ''Lane'',
                       lit ''Trail'', lit ''Ct'', lit ''Road'', lit ''Avenue'', lit ''Drive'',
                       lit ''Street'', lit ''Boulevard'']])"

text \<open>\<^verbatim>\<open>/([A-Za-z\s.']+)(?:\s+)([A-Z]{2})/\<close>\<close>

definition cityStateRegex :: re where
  "cityStateRegex =
     seq [Grp 1 (plus (Cls False [(CHR ''A'', CHR ''Z''), (CHR ''a'', CHR ''z''),
                                  (CHR 0x09, CHR 0x0D), (CHR 0x20, CHR 0x20), (CHR 0xA0, CHR 0xA0),
                                  (CHR ''.'', CHR ''.''), (CHR 0x27, CHR 0x27)])),
          plus ws,
          Grp 2 (rept upper 2 2)]"

text \<open>\<^verbatim>\<open>/^[\s]*([A-Za-z]+\s*[A-Za-z.]+)/\<close>\<close>

definition initialsRegex :: re where
  "initialsRegex =
     seq [Bol, star ws,
          Grp 1 (seq [plus alpha, star ws,
                      plus (Cls False [(CHR ''A'', CHR ''Z''), (CHR ''a'', CHR ''z''), (CHR ''.'', CHR ''.'')])])]"

text \<open>\<^verbatim>\<open>/(\d{9,12})/\<close>\<close>

definition phoneRegex :: re where
  "phoneRegex = Grp 1 (rept dig 9 12)"

text \<open>\<^verbatim>\<open>/\b(Morning|Evening|Afternoon|Anytime)(?:\s+at\s+(?:Work|Home))?\b/i\<close>\<close>

definition deliveryRegex :: re where
  "deliveryRegex =
     seq [Wb,
          Grp 1 (alts [lit ''Morning'', lit ''Evening'', lit ''Afternoon'', lit ''Anytime'']),
          opt (seq [plus ws, lit ''at'', plus ws, alts [lit ''Work'', lit ''Home'']]),
          Wb]"

text \<open>\<^verbatim>\<open>/\b([A-Z]{1,3}\d{5,7})\b/\<close>\<close>

definition invoiceRegex :: re where
  "invoiceRegex = seq [Wb, Grp 1 (seq [rept upper 1 3, rept dig 5 7]), Wb]"

text \<open>\<^verbatim>\<open>/\b([A-Z]{2}\d{6,7})\b/\<close>\<close>

definition policyRegex :: re where
  "policyRegex = seq [Wb, Grp 1 (seq [rept upper 2 2, rept dig 6 7]), Wb]"

text \<open>\<^verbatim>\<open>/\b(F[A-Z]\d{6,7}|V[A-Z]\d{6,7})\b/\<close>\<close>

definition chesisRegex :: re where
  "chesisRegex =
     seq [Wb,
          Grp 1 (Alt (seq [ch (CHR ''F''), upper, rept dig 6 7])
                     (seq [ch (CHR ''V''), upper, rept dig 6 7])),
          Wb]"

text \<open>\<^verbatim>\<open>/\b(\d{1,4})\b\s+(\d{1,4})\b\s+(\d{1,4})\b/\<close>\<close>

definition amountRegex :: re where
  "amountRegex =
     seq [Wb, Grp 1 (rept dig 1 4), Wb, plus ws,
          Grp 2 (rept dig 1 4), Wb, plus ws,
          Grp 3 (rept dig 1 4), Wb]"

text \<open>\<^verbatim>\<open>/\b(Self\s*Employed|SelfEmployed)\b/i\<close>\<close>

definition employerRegex :: re where
  "employerRegex =
     seq [Wb,
          Grp 1 (Alt (seq [lit ''Self'', star ws, lit ''Employed'']) (lit ''SelfEmployed'')),
          Wb]"

text \<open>\<^verbatim>\<open>/(\d{10})\b/\<close>\<close>

definition creditCardRegex :: re where
  "creditCardRegex = seq [Grp 1 (rept dig 10 10), Wb]"

text \<open>\<^verbatim>\<open>/\b(10\d{2})\b/\<close>\<close>

definition recordNoRegex :: re where
  "recordNoRegex = seq [Wb, Grp 1 (seq [lit ''10'', rept dig 2 2]), Wb]"

text \<open>\<^verbatim>\<open>/\b(\d{5}_\d{6})\b/\<close>\<close>

definition formNoRegex :: re where
  "formNoRegex = seq [Wb, Grp 1 (seq [rept dig 5 5, ch (CHR ''_''), rept dig 6 6]), Wb]"

text \<open>\<^verbatim>\<open>/\b([A-Z][a-z]+\s+[A-Z][a-z]+|[A-Z]+\s+[A-Z]+)\b/g\<close>\<close>

definition possibleNamesRegex :: re where
  "possibleNamesRegex =
     seq [Wb,
          Grp 1 (Alt (seq [upper, plus lowerc, plus ws, upper, plus lowerc])
                     (seq [plus upper, plus ws, plus upper])),
          Wb]"

text \<open>\<^verbatim>\<open>/^[A-Za-z]+\s+\d{1,2},\s*\d{4}$/\<close>\<close>

definition monthDayYearRegex :: re where
  "monthDayYearRegex =
     seq [Bol, plus alpha, plus ws, rept dig 1 2, ch (CHR '',''), star ws, rept dig 4 4, Eol]"

text \<open>\<^verbatim>\<open>/(\d{1,2})\s*\/\s*(\d{1,2})\s*\/\s*(\d{4})/\<close>\<close>

definition usDate4Regex :: re where
  "usDate4Regex =
     seq [Grp 1 (rept dig 1 2), star ws, ch (CHR ''/''), star ws,
          Grp 2 (rept dig 1 2), star ws, ch (CHR ''/''), star ws,
          Grp 3 (rept dig 4 4)]"

subsection \<open>\<^verbatim>\<open>formatDateToMonthDayYear\<close>\<close>

definition fullMonthNames :: "string list" where
  "fullMonthNames =
     [''January'', ''February'', ''March'', ''April'', ''May'', ''June'',
      ''July'', ''August'', ''September'', ''October'', ''November'', ''December'']"

text \<open>Reading the array of month names: an index outside it prints as \<^verbatim>\<open>undefined\<close>.\<close>

definition month_name :: "nat \<Rightarrow> string" where
  "month_name i = (if i < length fullMonthNames then fullMonthNames ! i else ''undefined'')"

definition formatDateToMonthDayYear :: "runtime \<Rightarrow> string \<Rightarrow> string" where
  "formatDateToMonthDayYear rt dateString =
     (if dateString = [] then []
      else if re_test False monthDayYearRegex dateString then dateString
      else
        (let date =
               (case re_match False usDate4Regex dateString of
                  Some usMatch \<Rightarrow>
                    (let month = parseInt (grp usMatch 1);
                         day = parseInt (grp usMatch 2);
                         year = parseInt (grp usMatch 3)
                     in date_of_parts rt year (int month - 1) day)
                | None \<Rightarrow> date_of_string rt dateString)
         in case date of
              None \<Rightarrow> dateString
            | Some d \<Rightarrow>
                month_name (d_month d) @ '' '' @ toString (d_date d) @ '', '' @ int_toString (d_year d)))"

subsection \<open>The four lines of a record\<close>

text \<open>
  Line 1: sales date, e-mail address, customer name, address, city and state, initials.
  Each block of the source is one step; a step that needs the date or e-mail match of an
  earlier block computes the same match again.
\<close>

definition sales_date_step :: "string \<Rightarrow> fields \<Rightarrow> fields" where
  "sales_date_step firstLine fs =
     (case re_match True salesDateRegex firstLine of
        None \<Rightarrow> fs
      | Some dateMatch \<Rightarrow> fset ''SALES DATE'' (trim (grp dateMatch 1)) fs)"

definition email_step :: "string \<Rightarrow> fields \<Rightarrow> fields" where
  "email_step firstLine fs =
     (case re_match True emailRegex firstLine of
        None \<Rightarrow> fs
      | Some emailMatch \<Rightarrow> fset ''E-MAIL ADDRESS'' (trim (grp emailMatch 1)) fs)"

text \<open>\<^verbatim>\<open>line.substring(line.indexOf(t) + t.length)\<close>\<close>

definition after :: "string \<Rightarrow> string \<Rightarrow> string" where
  "after line t = substring_from line (indexOf line t + int (length t))"

definition customer_name_step :: "string \<Rightarrow> fields \<Rightarrow> fields" where
  "customer_name_step firstLine fs =
     (case re_match True emailRegex firstLine of
        None \<Rightarrow> fs
      | Some emailMatch \<Rightarrow>
          (case re_match False customerNameRegex (after firstLine (grp emailMatch 1)) of
             None \<Rightarrow> fs
           | Some nameMatch \<Rightarrow> fset ''CUSTOMER NAME'' (trim (grp nameMatch 1)) fs))"

definition address_step :: "string \<Rightarrow> fields \<Rightarrow> fields" where
  "address_step firstLine fs =
     (if fget fs ''CUSTOMER NAME'' \<noteq> [] \<and> indexOf firstLine (fget fs ''CUSTOMER NAME'') > -1 then
        (case re_match True addressRegex (after firstLine (fget fs ''CUSTOMER NAME'')) of
           None \<Rightarrow> fs
         | Some addressMatch \<Rightarrow> fset ''CUSTOMER ADDRESS'' (trim (grp addressMatch 1)) fs)
      else fs)"

definition city_state_step :: "string \<Rightarrow> fields \<Rightarrow> fields" where
  "city_state_step firstLine fs =
     (if fget fs ''CUSTOMER ADDRESS'' \<noteq> [] \<and> indexOf firstLine (fget fs ''CUSTOMER ADDRESS'') > -1 then
        (case re_match False cityStateRegex (after firstLine (fget fs ''CUSTOMER ADDRESS'')) of
           None \<Rightarrow> fs
         | Some cityStateMatch \<Rightarrow>
             fset ''STATE'' (trim (grp cityStateMatch 2))
               (fset ''CITY'' (trim (grp cityStateMatch 1)) fs))
      else fs)"

definition initials_step :: "string \<Rightarrow> fields \<Rightarrow> fields" where
  "initials_step firstLine fs =
     (case re_match True salesDateRegex firstLine of
        None \<Rightarrow> fs
      | Some dateMatch \<Rightarrow>
          (if indexOf firstLine (grp dateMatch 1) > -1 then
             (case re_match False initialsRegex (after firstLine (grp dateMatch 1)) of
                None \<Rightarrow> fs
              | Some initialsMatch \<Rightarrow> fset ''INITIALS'' (trim (grp initialsMatch 1)) fs)
           else fs))"

definition first_line :: "string \<Rightarrow> fields \<Rightarrow> fields" where
  "first_line firstLine fs =
     initials_step firstLine
       (city_state_step firstLine
          (address_step firstLine
             (customer_name_step firstLine
                (email_step firstLine
                   (sales_date_step firstLine fs)))))"

text \<open>Line 2: the two phone numbers, the delivery time and the three codes.\<close>

definition phone_step :: "string \<Rightarrow> fields \<Rightarrow> fields" where
  "phone_step secondLine fs =
     (case re_match False phoneRegex secondLine of
        None \<Rightarrow> fs
      | Some phoneMatch \<Rightarrow>
          (case re_match False phoneRegex (after secondLine (grp phoneMatch 1)) of
             None \<Rightarrow> fset ''CUSTOMER PHONE'' (trim (grp phoneMatch 1)) fs
           | Some dealerPhoneMatch \<Rightarrow>
               fset ''DEALER PHONE'' (trim (grp dealerPhoneMatch 1))
                 (fset ''CUSTOMER PHONE'' (trim (grp phoneMatch 1)) fs)))"

definition delivery_step :: "string \<Rightarrow> fields \<Rightarrow> fields" where
  "delivery_step secondLine fs =
     (case re_match True deliveryRegex secondLine of
        None \<Rightarrow> fs
      | Some deliveryMatch \<Rightarrow> fset ''DELIVERY TIME'' (trim (m_text deliveryMatch)) fs)"

text \<open>The invoice, insurance policy and chassis patterns, in the order of the source.\<close>

definition numberPatterns :: "(re \<times> string) list" where
  "numberPatterns =
     [(invoiceRegex, ''INVOICE NO''),
      (policyRegex, ''INSURANCE POLICY NO''),
      (chesisRegex, ''CHESIS NO'')]"

definition number_step :: "string \<Rightarrow> fields \<Rightarrow> re \<times> string \<Rightarrow> fields" where
  "number_step secondLine fs pf =
     (case re_match False (fst pf) secondLine of
        None \<Rightarrow> fs
      | Some m \<Rightarrow> fset (snd pf) (trim (grp m 1)) fs)"

definition second_line :: "string \<Rightarrow> fields \<Rightarrow> fields" where
  "second_line secondLine fs =
     foldl (number_step secondLine) (delivery_step secondLine (phone_step secondLine fs)) numberPatterns"

text \<open>Line 3: the three amounts and the employer.\<close>

definition amount_step :: "string \<Rightarrow> fields \<Rightarrow> fields" where
  "amount_step thirdLine fs =
     (case re_match False amountRegex thirdLine of
        None \<Rightarrow> fs
      | Some amountMatches \<Rightarrow>
          fset ''TOTAL AMOUNT'' (trim (grp amountMatches 3))
            (fset ''INSURANCE AMOUNT'' (trim (grp amountMatches 2))
               (fset ''BASIC AMOUNT'' (scaled_basic (grp amountMatches 1)) fs)))"

definition employer_step :: "string \<Rightarrow> fields \<Rightarrow> fields" where
  "employer_step thirdLine fs =
     (case re_match True employerRegex thirdLine of
        None \<Rightarrow> fs
      | Some employerMatch \<Rightarrow> fset ''EMPLOYER'' ''SelfEmployed'' fs)"

definition third_line :: "string \<Rightarrow> fields \<Rightarrow> fields" where
  "third_line thirdLine fs = employer_step thirdLine (amount_step thirdLine fs)"

text \<open>Line 4: the credit card number.\<close>

definition fourth_line :: "string \<Rightarrow> fields \<Rightarrow> fields" where
  "fourth_line fourthLine fields0 =
     (case re_match False creditCardRegex fourthLine of
        None \<Rightarrow> fields0
      | Some creditCardMatch \<Rightarrow> fset ''CREDIT CARD NO'' (trim (grp creditCardMatch 1)) fields0)"

text \<open>
  The two loops over all lines, each leaving at the first line with a match: the record
  number and the form number.
\<close>

fun scan_first :: "re \<Rightarrow> string \<Rightarrow> string list \<Rightarrow> fields \<Rightarrow> fields" where
  "scan_first r key [] fs = fs"
| "scan_first r key (line # lines) fs =
     (case re_match False r line of
        None \<Rightarrow> scan_first r key lines fs
      | Some m \<Rightarrow> fset key (trim (grp m 1)) fs)"

text \<open>The extraction from the lines, up to the two loops.\<close>

definition extract_fields :: "string list \<Rightarrow> fields" where
  "extract_fields lines =
     (let fields1 = (if length lines \<ge> 1 then first_line (lines ! 0) default_fields else default_fields);
          fields2 = (if length lines \<ge> 2 then second_line (lines ! 1) fields1 else fields1);
          fields3 = (if length lines \<ge> 3 then third_line (lines ! 2) fields2 else fields2);
          fields4 = (if length lines \<ge> 4 then fourth_line (lines ! 3) fields3 else fields3);
          fields5 = scan_first recordNoRegex ''RECORD NO'' lines fields4
      in scan_first formNoRegex ''FORM NO'' lines fields5)"

subsection \<open>Derived values\<close>

text \<open>The computed total, the generated initials and the display form of the sales date.\<close>

definition total_step :: "runtime \<Rightarrow> fields \<Rightarrow> fields" where
  "total_step rt fs =
     (if fget fs ''BASIC AMOUNT'' \<noteq> [] \<and> fget fs ''INSURANCE AMOUNT'' \<noteq> []
         \<and> fget fs ''TOTAL AMOUNT'' = []
      then fset ''TOTAL AMOUNT'' (total_of rt (fget fs ''BASIC AMOUNT'') (fget fs ''INSURANCE AMOUNT'')) fs
      else fs)"

definition generated_initials_step :: "fields \<Rightarrow> fields" where
  "generated_initials_step fs =
     (if fget fs ''CUSTOMER NAME'' \<noteq> [] \<and> fget fs ''INITIALS'' = []
      then fset ''INITIALS'' (generateInitials (fget fs ''CUSTOMER NAME'')) fs
      else fs)"

definition date_display_step :: "runtime \<Rightarrow> fields \<Rightarrow> fields" where
  "date_display_step rt fs =
     (if fget fs ''SALES DATE'' \<noteq> []
      then fset ''SALES DATE'' (formatDateToMonthDayYear rt (fget fs ''SALES DATE'')) fs
      else fs)"

definition derive_fields :: "runtime \<Rightarrow> fields \<Rightarrow> fields" where
  "derive_fields rt fs = date_display_step rt (generated_initials_step (total_step rt fs))"

subsection \<open>Known records\<close>

definition known_1047 :: "(string \<times> string) list" where
  "known_1047 =
     [(''FORM NO'', ''12428_000065''),
      (''SALES DATE'', ''January 8, 2021''),
      (''CUSTOMER NAME'', ''Caldwell Jesse''),
      (''INITIALS'', ''C.J.''),
      (''E-MAIL ADDRESS'', ''minett-perry@earthlimk.net''),
      (''DEALER NAME'', ''Michelle Jackeson''),
      (''CUSTOMER ADDRESS'', ''1128 27 Ave NW''),
      (''CITY'', ''Horsefly''),
      (''STATE'', ''BC''),
      (''CUSTOMER PHONE'', ''7804668694''),
      (''DEALER PHONE'', ''6642780842''),
      (''DELIVERY TIME'', ''Evening''),
      (''INVOICE NO'', ''RE826178''),
      (''INSURANCE POLICY NO'', ''CA865350''),
      (''CHESIS NO'', ''FF428916''),
      (''BASIC AMOUNT'', ''0.067''),
      (''INSURANCE AMOUNT'', ''6700''),
      (''TOTAL AMOUNT'', ''73700''),
      (''DISCOUNT'', ''9.2''),
      (''NET AMOUNT'', ''67656.6''),
      (''EMPLOYER'', ''SelfEmployed''),
      (''CREDIT CARD NO'', ''5342704018'')]"

definition known_1048 :: "(string \<times> string) list" where
  "known_1048 =
     [(''FORM NO'', ''12428_000065''),
      (''SALES DATE'', ''February 7, 2021''),
      (''CUSTOMER NAME'', ''Cooper BJ''),
      (''INITIALS'', ''C.B.J.''),
      (''E-MAIL ADDRESS'', ''milewicz@alltel.net''),
      (''DEALER NAME'', ''Carl Unbehaun''),
      (''CUSTOMER ADDRESS'', ''1152 Fort Garry Rd''),
      (''CITY'', ''Rosetown''),
      (''STATE'', ''SK''),
      (''CUSTOMER PHONE'', ''7057563700''),
      (''DEALER PHONE'', ''8672726162''),
      (''DELIVERY TIME'', ''Anytime''),
      (''INVOICE NO'', ''Q740984''),
      (''INSURANCE POLICY NO'', ''KY769266''),
      (''CHESIS NO'', ''FF224266''),
      (''BASIC AMOUNT'', ''0.022''),
      (''INSURANCE AMOUNT'', ''880''),
      (''TOTAL AMOUNT'', ''22880''),
      (''DISCOUNT'', ''7.2''),
      (''NET AMOUNT'', ''21232.64''),
      (''EMPLOYER'', ''SelfEmployed''),
      (''CREDIT CARD NO'', ''8662706388'')]"

definition known_1049 :: "(string \<times> string) list" where
  "known_1049 =
     [(''FORM NO'', ''12428_000065''),
      (''SALES DATE'', ''May 5, 2021''),
      (''CUSTOMER NAME'', ''Reid Ronald E''),
      (''INITIALS'', ''R.R.E.''),
      (''E-MAIL ADDRESS'', ''chattykathy42@hotmail.com''),
      (''DEALER NAME'', ''Donna Brito''),
      (''CUSTOMER ADDRESS'', ''1178 Huron St''),
      (''CITY'', ''Montreal''),
      (''STATE'', ''QC''),
      (''CUSTOMER PHONE'', ''7057486160''),
      (''DEALER PHONE'', ''4982411271''),
      (''DELIVERY TIME'', ''Anytime''),
      (''INVOICE NO'', ''CI441535''),
      (''INSURANCE POLICY NO'', ''FL762116''),
      (''CHESIS NO'', ''DF707364''),
      (''BASIC AMOUNT'', ''0.078''),
      (''INSURANCE AMOUNT'', ''3120''),
      (''TOTAL AMOUNT'', ''81120''),
      (''DISCOUNT'', ''9.7''),
      (''NET AMOUNT'', ''73251.36''),
      (''EMPLOYER'', ''SelfEmployed''),
      (''CREDIT CARD NO'', ''5056779734'')]"

definition known_1056 :: "(string \<times> string) list" where
  "known_1056 =
     [(''FORM NO'', ''12428_000065''),
      (''SALES DATE'', ''May 5, 2021''),
      (''CUSTOMER NAME'', ''Karlene Peeren''),
      (''INITIALS'', ''K.P.''),
      (''E-MAIL ADDRESS'', ''oRlenlSM@AOLCOM''),
      (''DEALER NAME'', ''Cooper K.''),
      (''CUSTOMER ADDRESS'', ''40 Paeilge View''),
      (''CITY'', ''North York''),
      (''STATE'', ''ON''),
      (''CUSTOMER PHONE'', ''6494148427''),
      (''DEALER PHONE'', []),
      (''DELIVERY TIME'', ''Evening''),
      (''INVOICE NO'', ''CI694566''),
      (''INSURANCE POLICY NO'', ''FL6S9165''),
      (''CHESIS NO'', ''DIE6OT5''),
      (''BASIC AMOUNT'', ''0.022''),
      (''INSURANCE AMOUNT'', []),
      (''TOTAL AMOUNT'', []),
      (''DISCOUNT'', []),
      (''NET AMOUNT'', []),
      (''EMPLOYER'', ''SelfEmployed''),
      (''CREDIT CARD NO'', ''6627829921'')]"

text \<open>The ladder on the record number.\<close>

definition known_values :: "fields \<Rightarrow> fields" where
  "known_values fs =
     (if fget fs ''RECORD NO'' = ''1047'' then fill_all known_1047 fs
      else if fget fs ''RECORD NO'' = ''1048'' then fill_all known_1048 fs
      else if fget fs ''RECORD NO'' = ''1049'' then fill_all known_1049 fs
      else if fget fs ''RECORD NO'' = ''1056'' then fill_all known_1056 fs
      else fs)"

subsection \<open>Backstops and placeholders\<close>

text \<open>
  The search for a dealer name: the first line with a name that differs from the
  customer name, on a line that does not contain \<^verbatim>\<open>Self\<close>.
\<close>

fun dealer_scan :: "string list \<Rightarrow> fields \<Rightarrow> fields" where
  "dealer_scan [] fs = fs"
| "dealer_scan (line # lines) fs =
     (case match_all False possibleNamesRegex line of
        [] \<Rightarrow> dealer_scan lines fs
      | n # ns \<Rightarrow>
          (let fs' =
                 (case find (\<lambda>name. name \<noteq> fget fs ''CUSTOMER NAME'' \<and> \<not> str_includes line ''Self'')
                         (n # ns) of
                    None \<Rightarrow> fs
                  | Some name \<Rightarrow> fset ''DEALER NAME'' (trim name) fs)
           in if fget fs' ''DEALER NAME'' \<noteq> [] then fs' else dealer_scan lines fs'))"

definition dealer_backstop :: "string list \<Rightarrow> fields \<Rightarrow> fields" where
  "dealer_backstop lines fs =
     (if fget fs ''DEALER NAME'' = [] \<and> fget fs ''CUSTOMER NAME'' \<noteq> [] then dealer_scan lines fs
      else fs)"

definition form_default :: "fields \<Rightarrow> fields" where
  "form_default fs =
     (if fget fs ''FORM NO'' = [] then fset ''FORM NO'' ''12428_000065'' fs else fs)"

text \<open>The body of the final loop over \<^verbatim>\<open>Object.keys(fields)\<close>.\<close>

definition placeholder_step :: "fields \<Rightarrow> string \<Rightarrow> fields" where
  "placeholder_step fs key =
     (if fget fs key = [] then
        (if key = ''BASIC AMOUNT'' then fset key ''0.022'' fs
         else if key = ''INSURANCE AMOUNT'' then fset key ''880'' fs
         else if key = ''TOTAL AMOUNT'' then fset key ''22880'' fs
         else if key = ''DISCOUNT'' then fset key ''5.0'' fs
         else if key = ''NET AMOUNT'' then fset key ''21736.00'' fs
         else if key = ''EMPLOYER'' then fset key ''SelfEmployed'' fs
         else if key = ''DELIVERY TIME'' then fset key ''Anytime'' fs
         else fs)
      else fs)"

definition placeholders :: "fields \<Rightarrow> fields" where
  "placeholders fs = foldl placeholder_step fs (map fst fs)"

subsection \<open>The extractor\<close>

text \<open>\<^verbatim>\<open>text.split('\n').map(line => line.trim()).filter(line => line.length > 0)\<close>\<close>

definition clean_lines :: "string \<Rightarrow> string list" where
  "clean_lines text = filter (\<lambda>line. length line > 0) (map trim (split_nl text))"

definition parseFormRecord :: "runtime \<Rightarrow> string \<Rightarrow> fields" where
  "parseFormRecord rt text =
     (let lines = clean_lines text
      in placeholders
           (form_default
              (dealer_backstop lines
                 (known_values
                    (derive_fields rt
                       (extract_fields lines))))))"

section \<open>The orchestrator and the boundary detector: \<^verbatim>\<open>parseFormData\<close>\<close>

subsection \<open>Patterns\<close>

text \<open>The class \<^verbatim>\<open>[A-Z0-9_\-./]\<close>.\<close>

definition codeChars :: re where
  "codeChars =
     Cls False [(CHR ''A'', CHR ''Z''), (CHR ''0'', CHR ''9''), (CHR ''_'', CHR ''_''),
                (CHR ''-'', CHR ''-''), (CHR ''.'', CHR ''.''), (CHR ''/'', CHR ''/'')]"

text \<open>
  The array \<^verbatim>\<open>recordStartPatterns\<close>, each pattern with its \<^verbatim>\<open>i\<close> flag:
  \<^verbatim>\<open>/^(January|February|March|April|May|June|July|August|September|October|November|December)\s*\d{1,2},\s*\d{4}/i\<close>,
  \<^verbatim>\<open>/^(Jan|Feb|Mar|Apr|May|Jun|Jul|Aug|Sep|Sept|Oct|Nov|Dec)\s*\d{1,2},\s*\d{4}/i\<close>,
  \<^verbatim>\<open>/^\d{1,2}\s*\/\s*\d{1,2}\s*\/\s*\d{4}/\<close>,
  \<^verbatim>\<open>/^(FORM|Form)\s*(NO|No|Number|#):\s*[A-Z0-9_\-./]+/i\<close>,
  \<^verbatim>\<open>/^[A-Z]{2}[0-9]{5,}/\<close>,
  \<^verbatim>\<open>/^[A-Z0-9]{5,}_[0-9]{6}/\<close>,
  \<^verbatim>\<open>/^(RECORD|Record)\s*(NO|No|Number|#):\s*[A-Z0-9_\-./]+/i\<close>,
  \<^verbatim>\<open>/^(CUSTOMER|Client|Customer)\s*(NAME|Name):\s*[A-Za-z\s,.'-]+/i\<close>,
  \<^verbatim>\<open>/^(EMAIL|E-mail|E-MAIL):\s*[a-zA-Z0-9._%+-]+@[a-zA-Z0-9.-]+\.[a-zA-Z]{2,}/i\<close>,
  \<^verbatim>\<open>/^(\d+)[.\s]/\<close>.
\<close>

definition recordStartPatterns :: "(bool \<times> re) list" where
  "recordStartPatterns =
     [(True, seq [Bol,
                  Grp 1 (alts [lit ''January'', lit ''February'', lit ''March'', lit ''April'',
                               lit ''May'', lit ''June'', lit ''July'', lit ''August'',
                               lit ''September'', lit ''October'', lit ''November'', lit ''December'']),
                  star ws, rept dig 1 2, ch (CHR '',''), star ws, rept dig 4 4]),
      (True, seq [Bol,
                  Grp 1 (alts [lit ''Jan'', lit ''Feb'', lit ''Mar'', lit ''Apr'', lit ''May'',
                               lit ''Jun'', lit ''Jul'', lit ''Aug'', lit ''Sep'', lit ''Sept'',
                               lit ''Oct'', lit ''Nov'', lit ''Dec'']),
                  star ws, rept dig 1 2, ch (CHR '',''), star ws, rept dig 4 4]),
      (False, seq [Bol, rept dig 1 2, star ws, ch (CHR ''/''), star ws,
                   rept dig 1 2, star ws, ch (CHR ''/''), star ws, rept dig 4 4]),
      (True, seq [Bol, Grp 1 (alts [lit ''FORM'', lit ''Form'']), star ws,
                  Grp 2 (alts [lit ''NO'', lit ''No'', lit ''Number'', lit ''#'']),
                  ch (CHR '':''), star ws, plus codeChars]),
      (False, seq [Bol, rept upper 2 2, Rep dig 5 None]),
      (False, seq [Bol, Rep (Cls False [(CHR ''A'', CHR ''Z''), (CHR ''0'', CHR ''9'')]) 5 None,
                   ch (CHR ''_''), rept dig 6 6]),
      (True, seq [Bol, Grp 1 (alts [lit ''RECORD'', lit ''Record'']), star ws,
                  Grp 2 (alts [lit ''NO'', lit ''No'', lit ''Number'', lit ''#'']),
                  ch (CHR '':''), star ws, plus codeChars]),
      (True, seq [Bol, Grp 1 (alts [lit ''CUSTOMER'', lit ''Client'', lit ''Customer'']), star ws,
                  Grp 2 (alts [lit ''NAME'', lit ''Name'']),
                  ch (CHR '':''), star ws,
                  plus (Cls False [(CHR ''A'', CHR ''Z''), (CHR ''a'', CHR ''z''),
                                   (CHR 0x09, CHR 0x0D), (CHR 0x20, CHR 0x20), (CHR 0xA0, CHR 0xA0),
                                   (CHR '','', CHR '',''), (CHR ''.'', CHR ''.''),
                                   (CHR 0x27, CHR 0x27), (CHR ''-'', CHR ''-'')])]),
      (True, seq [Bol, Grp 1 (alts [lit ''EMAIL'', lit ''E-mail'', lit ''E-MAIL'']),
                  ch (CHR '':''), star ws,
                  plus (Cls False [(CHR ''a'', CHR ''z''), (CHR ''A'', CHR ''Z''), (CHR ''0'', CHR ''9''),
                                   (CHR ''.'', CHR ''.''), (CHR ''_'', CHR ''_''), (CHR ''%'', CHR ''%''),
                                   (CHR ''+'', CHR ''+''), (CHR ''-'', CHR ''-'')]),
                  ch (CHR ''@''),
                  plus (Cls False [(CHR ''a'', CHR ''z''), (CHR ''A'', CHR ''Z''), (CHR ''0'', CHR ''9''),
                                   (CHR ''.'', CHR ''.''), (CHR ''-'', CHR ''-'')]),
                  ch (CHR ''.''),
                  Rep alpha 2 None]),
      (False, seq [Bol, Grp 1 (plus dig),
                   Cls False [(CHR ''.'', CHR ''.''), (CHR 0x09, CHR 0x0D), (CHR 0x20, CHR 0x20),
                              (CHR 0xA0, CHR 0xA0)]])]"

text \<open>The class \<^verbatim>\<open>[-.\s]\<close>.\<close>

definition phoneSep :: re where
  "phoneSep =
     Cls False [(CHR ''-'', CHR ''-''), (CHR ''.'', CHR ''.''),
                (CHR 0x09, CHR 0x0D), (CHR 0x20, CHR 0x20), (CHR 0xA0, CHR 0xA0)]"

text \<open>
  The array \<^verbatim>\<open>secondaryPatterns\<close>:
  \<^verbatim>\<open>/^[A-Z][a-z]+\s+[A-Z][a-z]+\b/\<close>,
  \<^verbatim>\<open>/^(\d{3}[-.\s]\d{3}[-.\s]\d{4}|\(\d{3}\)\s*\d{3}[-.\s]\d{4})/\<close>,
  \<^verbatim>\<open>/^(BASIC|Basic|BASE|Insurance)\s+(AMOUNT|Amount):/i\<close>.
\<close>

definition secondaryPatterns :: "(bool \<times> re) list" where
  "secondaryPatterns =
     [(False, seq [Bol, upper, plus lowerc, plus ws, upper, plus lowerc, Wb]),
      (False, seq [Bol,
                   Grp 1 (Alt (seq [rept dig 3 3, phoneSep, rept dig 3 3, phoneSep, rept dig 4 4])
                              (seq [ch (CHR ''(''), rept dig 3 3, ch (CHR '')''), star ws,
                                    rept dig 3 3, phoneSep, rept dig 4 4]))]),
      (True, seq [Bol, Grp 1 (alts [lit ''BASIC'', lit ''Basic'', lit ''BASE'', lit ''Insurance'']),
                  plus ws, Grp 2 (alts [lit ''AMOUNT'', lit ''Amount'']), ch (CHR '':'')])]"

text \<open>\<^verbatim>\<open>/^[-=_*]{3,}$/\<close>\<close>

definition separatorRegex :: re where
  "separatorRegex =
     seq [Bol,
          Rep (Cls False [(CHR ''-'', CHR ''-''), (CHR ''='', CHR ''=''), (CHR ''_'', CHR ''_''),
                          (CHR ''*'', CHR ''*'')]) 3 None,
          Eol]"

text \<open>The class \<^verbatim>\<open>[.)]\<close>.\<close>

definition dotParen :: re where
  "dotParen = Cls False [(CHR ''.'', CHR ''.''), (CHR '')'', CHR '')'')]"

text \<open>\<^verbatim>\<open>/^\d+[.)]\s/\<close>, \<^verbatim>\<open>/^[A-Z]\d+[.)]\s/\<close> and \<^verbatim>\<open>/^[1-9][.)]\s/\<close>\<close>

definition numberedRegex :: re where
  "numberedRegex = seq [Bol, plus dig, dotParen, ws]"

definition letterNumberedRegex :: re where
  "letterNumberedRegex = seq [Bol, upper, plus dig, dotParen, ws]"

definition smallNumberRegex :: re where
  "smallNumberRegex = seq [Bol, Cls False [(CHR ''1'', CHR ''9'')], dotParen, ws]"

text \<open>\<^verbatim>\<open>/\d{1,2}\/\d{1,2}\/\d{4}/\<close>\<close>

definition slashDateRegex :: re where
  "slashDateRegex =
     seq [rept dig 1 2, ch (CHR ''/''), rept dig 1 2, ch (CHR ''/''), rept dig 4 4]"

subsection \<open>The passes over the lines\<close>

definition matches_any :: "(bool \<times> re) list \<Rightarrow> string \<Rightarrow> bool" where
  "matches_any patterns line = list_ex (\<lambda>p. re_test (fst p) (snd p) line) patterns"

text \<open>First pass: the lines that match a primary pattern.\<close>

definition primary_step :: "string list \<Rightarrow> nat list \<Rightarrow> nat \<Rightarrow> nat list" where
  "primary_step lines recordStartIndices index =
     (if matches_any recordStartPatterns (lines ! index) then recordStartIndices @ [index]
      else recordStartIndices)"

text \<open>Second pass: a secondary pattern after a blank or separator line, or on the first line.\<close>

definition secondary_step :: "string list \<Rightarrow> nat list \<Rightarrow> nat \<Rightarrow> nat list" where
  "secondary_step lines recordStartIndices index =
     (if List.member recordStartIndices index then recordStartIndices
      else if length (lines ! index) < 10 then recordStartIndices
      else
        (let isSecondaryMatch = matches_any secondaryPatterns (lines ! index);
             prevLineEmpty =
               (index > 0 \<and>
                (trim (lines ! (index - 1)) = [] \<or> re_test False separatorRegex (lines ! (index - 1))))
         in if isSecondaryMatch \<and> (prevLineEmpty \<or> index = 0) then recordStartIndices @ [index]
            else recordStartIndices))"

text \<open>
  Third pass: numbered lines, then the two content breaks. The three tests of one
  iteration each append the index on their own.
\<close>

definition aggressive_step :: "string list \<Rightarrow> nat list \<Rightarrow> nat \<Rightarrow> nat list" where
  "aggressive_step lines recordStartIndices index =
     (if List.member recordStartIndices index then recordStartIndices
      else
        (let line = lines ! index;
             indices1 =
               (if re_test False numberedRegex line \<or> re_test False letterNumberedRegex line then
                  (if index > 3 \<and> List.member recordStartIndices (index - 3)
                   then recordStartIndices @ [index]
                   else if re_test False smallNumberRegex line then recordStartIndices @ [index]
                   else recordStartIndices)
                else recordStartIndices)
         in if index > 0 then
              (let prevLine = lines ! (index - 1);
                   indices2 =
                     (if str_includes line ''@'' \<and> \<not> str_includes prevLine ''@''
                         \<and> \<not> List.member indices1 (index - 1)
                      then indices1 @ [index] else indices1)
               in if re_test False slashDateRegex line \<and> \<not> re_test False slashDateRegex prevLine
                     \<and> \<not> List.member indices2 (index - 1)
                  then indices2 @ [index] else indices2)
            else indices1))"

text \<open>The three passes; the second and third run only while few starts are known.\<close>

definition find_starts :: "string list \<Rightarrow> nat list" where
  "find_starts lines =
     (let indices1 = foldl (primary_step lines) [] [0..<length lines];
          indices2 =
            (if length indices1 < 5 then foldl (secondary_step lines) indices1 [0..<length lines]
             else indices1);
          indices3 =
            (if length indices2 < 10 then foldl (aggressive_step lines) indices2 [0..<length lines]
             else indices2)
      in sort indices3)"

subsection \<open>The periodicity fallback\<close>

record candidate =
  startLine :: nat
  distance :: nat
  occurrences :: nat

text \<open>\<^verbatim>\<open>line.substring(0, Math.min(5, line.length))\<close>\<close>

definition line_start :: "string \<Rightarrow> string" where
  "line_start line = take (min 5 (length line)) line"

text \<open>
  The \<^verbatim>\<open>while\<close> loop over the lines at one stride. It returns the flag
  \<^verbatim>\<open>potentialPattern\<close> and the count \<^verbatim>\<open>patternOccurrences\<close>. With a stride of 0 the
  loop of the source would never leave: that is the value \<open>None\<close>.
\<close>

function stride_scan :: "string list \<Rightarrow> nat \<Rightarrow> nat \<Rightarrow> nat \<Rightarrow> (bool \<times> nat) option" where
  "stride_scan lines dist lineIndex patternOccurrences =
     (if dist = 0 then None
      else if lineIndex < length lines then
        (let nextLineIndex = lineIndex + dist
         in if nextLineIndex < length lines then
              (if line_start (lines ! lineIndex) \<noteq> line_start (lines ! nextLineIndex)
               then Some (False, patternOccurrences)
               else stride_scan lines dist (lineIndex + dist) (patternOccurrences + 1))
            else stride_scan lines dist (lineIndex + dist) patternOccurrences)
      else Some (True, patternOccurrences))"
  by pat_completeness auto
termination
  by (relation "measure (\<lambda>(lines, dist, lineIndex, occ). length lines - lineIndex)") auto

text \<open>The loop that refills the indices: from the start line in steps of the stride.\<close>

function stride_indices :: "nat \<Rightarrow> nat \<Rightarrow> nat \<Rightarrow> nat list option" where
  "stride_indices n dist i =
     (if dist = 0 then None
      else if i < n then map_option (\<lambda>more_indices. i # more_indices) (stride_indices n dist (i + dist))
      else Some [])"
  by pat_completeness auto
termination
  by (relation "measure (\<lambda>(n, dist, i). n - i)") auto

text \<open>The \<^verbatim>\<open>for\<close> loop over the start lines of one stride: the pattern candidates.\<close>

fun candidates_from :: "string list \<Rightarrow> nat \<Rightarrow> nat list \<Rightarrow> candidate list option" where
  "candidates_from lines dist [] = Some []"
| "candidates_from lines dist (i # is) =
     (case stride_scan lines dist i 0 of
        None \<Rightarrow> None
      | Some res \<Rightarrow>
          (case candidates_from lines dist is of
             None \<Rightarrow> None
           | Some cs \<Rightarrow>
               Some (if fst res \<and> snd res \<ge> 3
                     then \<lparr>startLine = i, distance = dist, occurrences = snd res\<rparr> # cs
                     else cs)))"

text \<open>
  One stride of \<^verbatim>\<open>lineDistanceToCheck\<close>. The candidates are sorted by occurrences,
  largest first, by a stable sort; the best one replaces all indices found so far.
\<close>

definition periodic_step :: "string list \<Rightarrow> nat list option \<Rightarrow> nat \<Rightarrow> nat list option" where
  "periodic_step lines acc dist =
     (case acc of
        None \<Rightarrow> None
      | Some recordStartIndices \<Rightarrow>
          (if length recordStartIndices > 5 then Some recordStartIndices
           else
             (case candidates_from lines dist [0..<min dist (length lines)] of
                None \<Rightarrow> None
              | Some patternCandidates \<Rightarrow>
                  (if length patternCandidates > 0 then
                     (let bestPattern = hd (sort_key (\<lambda>c. - int (occurrences c)) patternCandidates)
                      in stride_indices (length lines) (distance bestPattern) (startLine bestPattern))
                   else Some recordStartIndices))))"

definition lineDistanceToCheck :: "nat list" where
  "lineDistanceToCheck = [4, 5, 6, 7, 8, 10, 12, 15]"

definition periodic_fallback :: "string list \<Rightarrow> nat list \<Rightarrow> nat list option" where
  "periodic_fallback lines recordStartIndices =
     (if length recordStartIndices < 3
      then foldl (periodic_step lines) (Some recordStartIndices) lineDistanceToCheck
      else Some recordStartIndices)"

subsection \<open>The orchestrator\<close>

text \<open>
  The ways of not returning a list of records: the call of \<^verbatim>\<open>getDefaultFields\<close>, which
  the server module does not define, raises a \<^verbatim>\<open>ReferenceError\<close>; a loop that never
  leaves is \<open>Diverges\<close>.
\<close>

datatype error = ReferenceError | Diverges

text \<open>\<^verbatim>\<open>Object.values(parsedRecord).some(value => value && value.trim() !== '')\<close>\<close>

definition has_data :: "fields \<Rightarrow> bool" where
  "has_data parsedRecord = list_ex (\<lambda>v. v \<noteq> [] \<and> trim v \<noteq> []) (map snd parsedRecord)"

text \<open>\<^verbatim>\<open>lines.slice(startIndex, endIndex)\<close> for indices within the array.\<close>

definition slice :: "'a list \<Rightarrow> nat \<Rightarrow> nat \<Rightarrow> 'a list" where
  "slice xs a b = take (b - a) (drop a xs)"

text \<open>The line span of the \<open>i\<close>-th start index: up to the next start, or to the end.\<close>

definition span_of :: "string list \<Rightarrow> nat list \<Rightarrow> nat \<Rightarrow> nat \<times> nat" where
  "span_of lines recordStartIndices i =
     (recordStartIndices ! i,
      if i < length recordStartIndices - 1 then recordStartIndices ! (i + 1) else length lines)"

definition spans :: "string list \<Rightarrow> nat list \<Rightarrow> (nat \<times> nat) list" where
  "spans lines recordStartIndices =
     map (span_of lines recordStartIndices) [0..<length recordStartIndices]"

text \<open>The body of the loop over the start indices: parse the span, keep a record with data.\<close>

definition record_step :: "runtime \<Rightarrow> string list \<Rightarrow> fields list \<Rightarrow> nat \<times> nat \<Rightarrow> fields list" where
  "record_step rt lines records sp =
     (let recordText = join_nl (slice lines (fst sp) (snd sp));
          parsedRecord = parseFormRecord rt recordText
      in if has_data parsedRecord then records @ [parsedRecord] else records)"

text \<open>The record-start indices after all four stages.\<close>

definition segment :: "string list \<Rightarrow> nat list option" where
  "segment lines = periodic_fallback lines (find_starts lines)"

definition parseFormData :: "runtime \<Rightarrow> string \<Rightarrow> error + fields list" where
  "parseFormData rt text =
     (let lines = filter (\<lambda>line. line \<noteq> []) (map trim (split_nl text))
      in case segment lines of
           None \<Rightarrow> Inl Diverges
         | Some recordStartIndices \<Rightarrow>
             (if length recordStartIndices = 0 then Inr [parseFormRecord rt text]
              else
                (let records = foldl (record_step rt lines) [] (spans lines recordStartIndices)
                 in if length records = 0 then Inl ReferenceError else Inr records)))"

section \<open>Properties of the extractor\<close>

subsection \<open>The keys of a record\<close>



lemma fget_fset: "fget (fset k v fs) k' = (if k' = k then v else fget fs k')"
  by (induction fs) (auto simp: fget_def)




























subsection \<open>The form number is never empty\<close>

lemma last_dropWhile: "dropWhile P xs \<noteq> [] \<Longrightarrow> last (dropWhile P xs) = last xs"
  by (induction xs) (auto split: if_splits)

lemma dropWhile_fix: "xs = [] \<or> \<not> P (hd xs) \<Longrightarrow> dropWhile P xs = xs"
  by (cases xs) auto

lemma trim_idem: "trim (trim s) = trim s"
proof -
  define t where "t = dropWhile is_space s"
  define u where "u = dropWhile is_space (rev t)"
  have t: "t = [] \<or> \<not> is_space (hd t)"
    unfolding t_def using hd_dropWhile [of is_space s] by blast
  have u: "u = [] \<or> \<not> is_space (hd u)"
    unfolding u_def using hd_dropWhile [of is_space "rev t"] by blast
  have "rev u = [] \<or> \<not> is_space (hd (rev u))"
  proof (cases "u = []")
    case True
    then show ?thesis by simp
  next
    case False
    then have "last u = last (rev t)"
      unfolding u_def by (rule last_dropWhile)
    moreover from False have "t \<noteq> []" unfolding u_def by auto
    ultimately have "hd (rev u) = hd t"
      using False by (simp add: hd_rev last_rev)
    with t \<open>t \<noteq> []\<close> show ?thesis by simp
  qed
  then have "dropWhile is_space (rev u) = rev u" by (rule dropWhile_fix)
  moreover have "dropWhile is_space u = u" using u by (rule dropWhile_fix)
  ultimately show ?thesis
    unfolding trim_def t_def [symmetric] u_def [symmetric] by simp
qed

text \<open>A form number is either still empty or has something left after trimming.\<close>

definition form_ok :: "fields \<Rightarrow> bool" where
  "form_ok fs = (fget fs ''FORM NO'' = [] \<or> trim (fget fs ''FORM NO'') \<noteq> [])"

lemma other_steps1:
  "k \<noteq> ''SALES DATE'' \<Longrightarrow> fget (sales_date_step l fs) k = fget fs k"
  "k \<noteq> ''E-MAIL ADDRESS'' \<Longrightarrow> fget (email_step l fs) k = fget fs k"
  "k \<noteq> ''CUSTOMER NAME'' \<Longrightarrow> fget (customer_name_step l fs) k = fget fs k"
  "k \<noteq> ''CUSTOMER ADDRESS'' \<Longrightarrow> fget (address_step l fs) k = fget fs k"
  "k \<noteq> ''CITY'' \<Longrightarrow> k \<noteq> ''STATE'' \<Longrightarrow> fget (city_state_step l fs) k = fget fs k"
  "k \<noteq> ''INITIALS'' \<Longrightarrow> fget (initials_step l fs) k = fget fs k"
  by (simp_all add: sales_date_step_def email_step_def customer_name_step_def
      address_step_def city_state_step_def initials_step_def fget_fset split: option.splits)

lemma other_steps2:
  "k \<noteq> ''CUSTOMER PHONE'' \<Longrightarrow> k \<noteq> ''DEALER PHONE'' \<Longrightarrow> fget (phone_step l fs) k = fget fs k"
  "k \<noteq> ''DELIVERY TIME'' \<Longrightarrow> fget (delivery_step l fs) k = fget fs k"
  "k \<noteq> snd pf \<Longrightarrow> fget (number_step l fs pf) k = fget fs k"
  by (simp_all add: phone_step_def delivery_step_def number_step_def fget_fset split: option.splits)

lemma other_steps3:
  "k \<noteq> ''BASIC AMOUNT'' \<Longrightarrow> k \<noteq> ''INSURANCE AMOUNT'' \<Longrightarrow> k \<noteq> ''TOTAL AMOUNT''
   \<Longrightarrow> fget (amount_step l fs) k = fget fs k"
  "k \<noteq> ''EMPLOYER'' \<Longrightarrow> fget (employer_step l fs) k = fget fs k"
  "k \<noteq> ''CREDIT CARD NO'' \<Longrightarrow> fget (fourth_line l fs) k = fget fs k"
  by (simp_all add: amount_step_def employer_step_def fourth_line_def fget_fset split: option.splits)

lemma other_scan_first: "k \<noteq> key \<Longrightarrow> fget (scan_first r key ls fs) k = fget fs k"
  by (induction ls) (simp_all add: fget_fset split: option.splits)

lemma other_derive:
  "k \<noteq> ''TOTAL AMOUNT'' \<Longrightarrow> k \<noteq> ''INITIALS'' \<Longrightarrow> k \<noteq> ''SALES DATE''
   \<Longrightarrow> fget (derive_fields rt fs) k = fget fs k"
  by (simp add: derive_fields_def total_step_def generated_initials_step_def date_display_step_def
      fget_fset)

lemma other_dealer_scan: "k \<noteq> ''DEALER NAME'' \<Longrightarrow> fget (dealer_scan ls fs) k = fget fs k"
proof (induction ls arbitrary: fs)
  case Nil
  then show ?case by simp
next
  case (Cons l ls)
  show ?case
  proof (cases "match_all False possibleNamesRegex l")
    case Nil
    with Cons show ?thesis by simp
  next
    case (Cons n ns)
    with Cons.prems Cons.IH show ?thesis
      by (simp add: Let_def fget_fset split: option.splits)
  qed
qed

lemma other_dealer: "k \<noteq> ''DEALER NAME'' \<Longrightarrow> fget (dealer_backstop ls fs) k = fget fs k"
  by (simp add: dealer_backstop_def other_dealer_scan)

lemma fget_default: "fget default_fields k = []"
  by (simp add: default_fields_def fget_def)

lemma other_first_line:
  "k = ''FORM NO'' \<or> k = ''RECORD NO'' \<or> k = ''REMARK'' \<Longrightarrow> fget (first_line l fs) k = fget fs k"
  by (auto simp: first_line_def other_steps1)

lemma other_second_line:
  "k = ''FORM NO'' \<or> k = ''RECORD NO'' \<or> k = ''REMARK'' \<Longrightarrow> fget (second_line l fs) k = fget fs k"
  by (auto simp: second_line_def numberPatterns_def other_steps2)

lemma other_third_line:
  "k = ''FORM NO'' \<or> k = ''RECORD NO'' \<or> k = ''REMARK'' \<Longrightarrow> fget (third_line l fs) k = fget fs k"
  by (auto simp: third_line_def other_steps3)

lemma form_ok_scan:
  "form_ok fs \<Longrightarrow> form_ok (scan_first r ''FORM NO'' ls fs)"
  by (induction ls) (simp_all add: form_ok_def fget_fset trim_idem split: option.splits)

lemma form_ok_extract: "form_ok (extract_fields ls)"
proof -
  have "form_ok fs" if "fget fs ''FORM NO'' = []" for fs
    using that by (simp add: form_ok_def)
  then show ?thesis
    unfolding extract_fields_def Let_def
    by (intro form_ok_scan)
       (simp add: other_scan_first other_first_line other_second_line other_third_line
          other_steps3 fget_default)
qed


lemma fget_fill:
  "fget (fill k' v fs) k = (if k = k' then (if fget fs k = [] then v else fget fs k) else fget fs k)"
  by (simp add: fill_def fget_fset)

lemma fill_all_kept: "fget fs k \<noteq> [] \<Longrightarrow> fget (fill_all table fs) k = fget fs k"
proof (induction table arbitrary: fs)
  case Nil
  then show ?case by (simp add: fill_all_def)
next
  case (Cons kv table)
  have eq: "fget (fill (fst kv) (snd kv) fs) k = fget fs k"
    using Cons.prems by (auto simp: fget_fill)
  with Cons.prems have "fget (fill (fst kv) (snd kv) fs) k \<noteq> []" by simp
  from Cons.IH [OF this] eq show ?case by (simp add: fill_all_def)
qed

lemma fill_all_other:
  "list_all (\<lambda>kv. fst kv \<noteq> k) table \<Longrightarrow> fget (fill_all table fs) k = fget fs k"
  unfolding fill_all_def
  by (induction table arbitrary: fs) (auto simp: fget_fill)

lemma fill_all_filled:
  "fget fs k = [] \<Longrightarrow> distinct (map fst table) \<Longrightarrow> (k, v) \<in> set table
   \<Longrightarrow> fget (fill_all table fs) k = v"
proof (induction table arbitrary: fs)
  case Nil
  then show ?case by simp
next
  case (Cons kv table)
  show ?case
  proof (cases "kv = (k, v)")
    case True
    with Cons.prems have notin: "list_all (\<lambda>kv. fst kv \<noteq> k) table"
      by (auto simp: list_all_iff)
    have "fget (fill_all (kv # table) fs) k = fget (fill_all table (fill k v fs)) k"
      using True by (simp add: fill_all_def)
    also have "\<dots> = fget (fill k v fs) k"
      using notin by (rule fill_all_other)
    also have "\<dots> = v"
      using Cons.prems(1) by (simp add: fget_fill)
    finally show ?thesis .
  next
    case False
    with Cons.prems have mem: "(k, v) \<in> set table" and ne: "fst kv \<noteq> k"
      by (auto simp: rev_image_eqI)
    have "fget (fill (fst kv) (snd kv) fs) k = []"
      using ne Cons.prems(1) by (simp add: fget_fill)
    from Cons.IH [OF this _ mem] Cons.prems(2)
    have "fget (fill_all table (fill (fst kv) (snd kv) fs)) k = v" by simp
    then show ?thesis by (simp add: fill_all_def)
  qed
qed

lemma known_distinct:
  "distinct (map fst known_1047)" "distinct (map fst known_1048)"
  "distinct (map fst known_1049)" "distinct (map fst known_1056)"
  by (simp_all add: known_1047_def known_1048_def known_1049_def known_1056_def)

lemma known_form_no:
  "(''FORM NO'', ''12428_000065'') \<in> set known_1047"
  "(''FORM NO'', ''12428_000065'') \<in> set known_1048"
  "(''FORM NO'', ''12428_000065'') \<in> set known_1049"
  "(''FORM NO'', ''12428_000065'') \<in> set known_1056"
  by (simp_all add: known_1047_def known_1048_def known_1049_def known_1056_def)

lemma trim_default_form_no: "trim ''12428_000065'' = ''12428_000065''"
  by code_simp

lemma known_form_cases:
  "fget (known_values fs) ''FORM NO'' = fget fs ''FORM NO''
   \<or> (fget fs ''FORM NO'' = [] \<and> fget (known_values fs) ''FORM NO'' = ''12428_000065'')"
proof (cases "fget fs ''FORM NO'' = []")
  case True
  then show ?thesis
    by (simp add: known_values_def fill_all_filled known_distinct known_form_no)
next
  case False
  then show ?thesis
    by (simp add: known_values_def fill_all_kept)
qed

lemma form_ok_known: "form_ok fs \<Longrightarrow> form_ok (known_values fs)"
  using known_form_cases [of fs] by (auto simp: form_ok_def trim_default_form_no)

lemma placeholder_step_other: "key \<noteq> k \<Longrightarrow> fget (placeholder_step fs key) k = fget fs k"
  by (auto simp: placeholder_step_def fget_fset)

lemma placeholder_step_kept: "fget fs k \<noteq> [] \<Longrightarrow> fget (placeholder_step fs key) k = fget fs k"
  by (cases "key = k") (simp_all add: placeholder_step_other, simp add: placeholder_step_def)

lemma placeholders_kept: "fget fs k \<noteq> [] \<Longrightarrow> fget (placeholders fs) k = fget fs k"
proof -
  have "fget fs k \<noteq> [] \<Longrightarrow> fget (foldl placeholder_step fs ks) k = fget fs k" for ks
    by (induction ks arbitrary: fs) (simp_all add: placeholder_step_kept)
  then show "fget fs k \<noteq> [] \<Longrightarrow> fget (placeholders fs) k = fget fs k"
    by (simp add: placeholders_def)
qed

lemma form_default_kept: "fget fs k \<noteq> [] \<Longrightarrow> fget (form_default fs) k = fget fs k"
  by (auto simp: form_default_def fget_fset)

lemma form_default_form_no:
  "fget (form_default fs) ''FORM NO'' = (if fget fs ''FORM NO'' = [] then ''12428_000065'' else fget fs ''FORM NO'')"
  by (simp add: form_default_def fget_fset)

lemma form_no_parse:
  "fget (parseFormRecord rt text) ''FORM NO'' \<noteq> []
   \<and> trim (fget (parseFormRecord rt text) ''FORM NO'') \<noteq> []"
proof -
  define fs where "fs = dealer_backstop (clean_lines text)
    (known_values (derive_fields rt (extract_fields (clean_lines text))))"
  have "form_ok (derive_fields rt (extract_fields (clean_lines text)))"
    using form_ok_extract [of "clean_lines text"] by (simp add: form_ok_def other_derive)
  then have "form_ok (known_values (derive_fields rt (extract_fields (clean_lines text))))"
    by (rule form_ok_known)
  then have ok: "form_ok fs"
    by (simp add: fs_def form_ok_def other_dealer)
  have ne: "fget (form_default fs) ''FORM NO'' \<noteq> []"
    by (simp add: form_default_form_no)
  have eq: "fget (parseFormRecord rt text) ''FORM NO'' = fget (form_default fs) ''FORM NO''"
    using placeholders_kept [OF ne] by (simp add: parseFormRecord_def Let_def fs_def)
  show ?thesis
    unfolding eq using ok
    by (auto simp: form_default_form_no form_ok_def trim_default_form_no)
qed

lemma fget_in_values: "fget fs k \<noteq> [] \<Longrightarrow> fget fs k \<in> set (map snd fs)"
  by (auto simp: fget_def split: option.splits dest!: map_of_SomeD intro: rev_image_eqI)

lemma has_data_parse: "has_data (parseFormRecord rt text)"
proof -
  let ?v = "fget (parseFormRecord rt text) ''FORM NO''"
  from form_no_parse have "?v \<noteq> []" and "trim ?v \<noteq> []" by simp_all
  moreover from \<open>?v \<noteq> []\<close> have "?v \<in> set (map snd (parseFormRecord rt text))"
    by (rule fget_in_values)
  ultimately show ?thesis
    unfolding has_data_def list_ex_iff by blast
qed

subsection \<open>The loops of the periodicity fallback return\<close>

declare stride_scan.simps [simp del]
declare stride_indices.simps [simp del]

lemma stride_scan_returns: "0 < dist \<Longrightarrow> \<exists>res. stride_scan lines dist i occ = Some res"
proof (induction lines dist i occ rule: stride_scan.induct)
  case (1 lines dist lineIndex occ)
  then show ?case
    by (subst stride_scan.simps) (auto simp: Let_def)
qed

lemma stride_indices_returns: "0 < dist \<Longrightarrow> \<exists>res. stride_indices n dist i = Some res"
proof (induction n dist i rule: stride_indices.induct)
  case (1 n dist i)
  then show ?case
    by (subst stride_indices.simps) auto
qed

lemma candidates_returns:
  "0 < dist \<Longrightarrow> \<exists>cs. candidates_from lines dist is = Some cs \<and> list_all (\<lambda>c. distance c = dist) cs"
proof (induction "is")
  case Nil
  then show ?case by simp
next
  case (Cons i "is")
  from Cons obtain cs where cs: "candidates_from lines dist is = Some cs"
    "list_all (\<lambda>c. distance c = dist) cs" by blast
  from stride_scan_returns [OF Cons.prems, of lines i 0]
  obtain res where "stride_scan lines dist i 0 = Some res" by blast
  with cs show ?case by simp
qed

lemma periodic_step_returns:
  assumes "0 < dist"
  shows "\<exists>res. periodic_step lines (Some acc) dist = Some res"
proof -
  from candidates_returns [OF assms, of lines "[0..<min dist (length lines)]"]
  obtain cs where cs: "candidates_from lines dist [0..<min dist (length lines)] = Some cs"
    "list_all (\<lambda>c. distance c = dist) cs" by blast
  show ?thesis
  proof (cases "cs = []")
    case True
    with cs show ?thesis by (simp add: periodic_step_def)
  next
    case False
    let ?best = "hd (sort_key (\<lambda>c. - int (occurrences c)) cs)"
    have "length (sort_key (\<lambda>c. - int (occurrences c)) cs) = length cs" by simp
    with False have "sort_key (\<lambda>c. - int (occurrences c)) cs \<noteq> []" by force
    then have "?best \<in> set (sort_key (\<lambda>c. - int (occurrences c)) cs)"
      by (rule hd_in_set)
    then have "?best \<in> set cs" by simp
    with cs(2) have "distance ?best = dist" by (simp add: list_all_iff)
    with assms stride_indices_returns [of "distance ?best" "length lines" "startLine ?best"]
    obtain res where "stride_indices (length lines) (distance ?best) (startLine ?best) = Some res"
      by auto
    with cs False show ?thesis by (auto simp: periodic_step_def Let_def)
  qed
qed

lemma periodic_fold_returns:
  "list_all (\<lambda>d. 0 < d) ds \<Longrightarrow> \<exists>res. foldl (periodic_step lines) (Some acc) ds = Some res"
proof (induction ds arbitrary: acc)
  case Nil
  then show ?case by simp
next
  case (Cons d ds)
  then have "0 < d" by simp
  from periodic_step_returns [OF this, of lines acc]
  obtain res where "periodic_step lines (Some acc) d = Some res" by blast
  with Cons show ?case by simp
qed

lemma segment_returns: "\<exists>indices. segment lines = Some indices"
  using periodic_fold_returns [of lineDistanceToCheck lines "find_starts lines"]
  by (simp add: segment_def periodic_fallback_def lineDistanceToCheck_def)

subsection \<open>The orchestrator keeps every parsed record\<close>

lemma records_fold:
  "foldl (record_step rt lines) acc sps =
     acc @ map (\<lambda>sp. parseFormRecord rt (join_nl (slice lines (fst sp) (snd sp)))) sps"
  by (induction sps arbitrary: acc) (simp_all add: record_step_def Let_def has_data_parse)

lemma parseFormData_returns: "\<exists>rs. parseFormData rt text = Inr rs \<and> rs \<noteq> []"
proof -
  let ?lines = "filter (\<lambda>line. line \<noteq> []) (map trim (split_nl text))"
  from segment_returns [of ?lines] obtain indices where seg: "segment ?lines = Some indices"
    by blast
  show ?thesis
  proof (cases "indices = []")
    case True
    with seg show ?thesis by (simp add: parseFormData_def)
  next
    case False
    with seg show ?thesis
      by (simp add: parseFormData_def Let_def records_fold spans_def)
  qed
qed

lemma empty_text: "parseFormData rt [] = Inr [
      [(''FORM NO'', ''12428_000065''), (''RECORD NO'', []),
       (''SALES DATE'', []), (''CUSTOMER NAME'', []), (''INITIALS'', []),
       (''E-MAIL ADDRESS'', []), (''DEALER NAME'', []),
       (''CUSTOMER ADDRESS'', []), (''CITY'', []), (''STATE'', []),
       (''CUSTOMER PHONE'', []), (''DEALER PHONE'', []),
       (''DELIVERY TIME'', ''Anytime''), (''INVOICE NO'', []),
       (''INSURANCE POLICY NO'', []), (''CHESIS NO'', []),
       (''BASIC AMOUNT'', ''0.022''), (''INSURANCE AMOUNT'', ''880''),
       (''TOTAL AMOUNT'', ''22880''), (''DISCOUNT'', ''5.0''),
       (''NET AMOUNT'', ''21736.00''), (''EMPLOYER'', ''SelfEmployed''),
       (''CREDIT CARD NO'', []), (''REMARK'', [])]]"
  by code_simp

subsection \<open>Values that later steps keep\<close>

lemma dealer_kept: "fget fs k \<noteq> [] \<Longrightarrow> fget (dealer_backstop ls fs) k = fget fs k"
  by (cases "k = ''DEALER NAME''") (simp_all add: dealer_backstop_def other_dealer_scan)

lemma known_kept: "fget fs k \<noteq> [] \<Longrightarrow> fget (known_values fs) k = fget fs k"
  by (simp add: known_values_def fill_all_kept)

lemma form_default_other: "k \<noteq> ''FORM NO'' \<Longrightarrow> fget (form_default fs) k = fget fs k"
  by (simp add: form_default_def fget_fset)

lemma placeholders_fixed:
  assumes "\<And>fs. placeholder_step fs k = fs"
  shows "fget (placeholders fs) k = fget fs k"
proof -
  have "fget (foldl placeholder_step fs ks) k = fget fs k" for ks
  proof (induction ks arbitrary: fs)
    case Nil
    show ?case by simp
  next
    case (Cons key ks)
    show ?case
      by (cases "key = k") (simp_all add: Cons.IH assms placeholder_step_other)
  qed
  then show ?thesis by (simp add: placeholders_def)
qed

lemma placeholder_step_no_default:
  "placeholder_step fs ''REMARK'' = fs" "placeholder_step fs ''RECORD NO'' = fs"
  by (simp_all add: placeholder_step_def)

lemma known_other:
  "list_all (\<lambda>kv. fst kv \<noteq> ''REMARK'') known_1047" "list_all (\<lambda>kv. fst kv \<noteq> ''REMARK'') known_1048"
  "list_all (\<lambda>kv. fst kv \<noteq> ''REMARK'') known_1049" "list_all (\<lambda>kv. fst kv \<noteq> ''REMARK'') known_1056"
  "list_all (\<lambda>kv. fst kv \<noteq> ''RECORD NO'') known_1047" "list_all (\<lambda>kv. fst kv \<noteq> ''RECORD NO'') known_1048"
  "list_all (\<lambda>kv. fst kv \<noteq> ''RECORD NO'') known_1049" "list_all (\<lambda>kv. fst kv \<noteq> ''RECORD NO'') known_1056"
  by (simp_all add: known_1047_def known_1048_def known_1049_def known_1056_def)

lemma known_values_other:
  "fget (known_values fs) ''REMARK'' = fget fs ''REMARK''"
  "fget (known_values fs) ''RECORD NO'' = fget fs ''RECORD NO''"
  by (simp_all add: known_values_def fill_all_other known_other)

lemma remark_extract: "fget (extract_fields ls) ''REMARK'' = []"
  by (simp add: extract_fields_def Let_def other_scan_first other_first_line other_second_line
      other_third_line other_steps3 fget_default)

lemma remark_parse: "fget (parseFormRecord rt text) ''REMARK'' = []"
  by (simp add: parseFormRecord_def Let_def placeholders_fixed placeholder_step_no_default
      form_default_other other_dealer known_values_other other_derive remark_extract)

lemma record_no_parse:
  "fget (parseFormRecord rt text) ''RECORD NO'' = fget (extract_fields (clean_lines text)) ''RECORD NO''"
  by (simp add: parseFormRecord_def Let_def placeholders_fixed placeholder_step_no_default
      form_default_other other_dealer known_values_other other_derive)

lemma known_1047_values: "list_all (\<lambda>kv. snd kv \<noteq> []) known_1047"
  by (simp add: known_1047_def)

lemma fill_from_1047:
  assumes "fget (extract_fields (clean_lines text)) ''RECORD NO'' = ''1047''"
    and "(k, v) \<in> set known_1047"
    and "fget (derive_fields rt (extract_fields (clean_lines text))) k = []"
  shows "fget (parseFormRecord rt text) k = v"
proof -
  let ?d = "derive_fields rt (extract_fields (clean_lines text))"
  have "fget ?d ''RECORD NO'' = ''1047''"
    using assms(1) by (simp add: other_derive)
  then have "known_values ?d = fill_all known_1047 ?d"
    by (simp add: known_values_def)
  with assms(2,3) have kv: "fget (known_values ?d) k = v"
    by (simp add: fill_all_filled known_distinct)
  from assms(2) known_1047_values have "v \<noteq> []"
    by (auto simp: list_all_iff)
  with kv have ne: "fget (known_values ?d) k \<noteq> []" by simp
  have "fget (dealer_backstop (clean_lines text) (known_values ?d)) k = v"
    using dealer_kept [OF ne] kv by simp
  with \<open>v \<noteq> []\<close> have "fget (form_default (dealer_backstop (clean_lines text) (known_values ?d))) k = v"
    by (simp add: form_default_kept)
  with \<open>v \<noteq> []\<close> show ?thesis
    by (simp add: parseFormRecord_def Let_def placeholders_kept)
qed

lemma derive_amounts_kept:
  "fget fs ''TOTAL AMOUNT'' \<noteq> [] \<Longrightarrow>
   k = ''BASIC AMOUNT'' \<or> k = ''INSURANCE AMOUNT'' \<or> k = ''TOTAL AMOUNT'' \<Longrightarrow>
   fget (derive_fields rt fs) k = fget fs k"
  by (auto simp: derive_fields_def total_step_def generated_initials_step_def date_display_step_def
      fget_fset)

lemma final_kept:
  assumes "fget fs k \<noteq> []"
  shows "fget (placeholders (form_default (dealer_backstop ls (known_values fs)))) k = fget fs k"
proof -
  have "fget (known_values fs) k = fget fs k" using assms by (rule known_kept)
  moreover from this assms have "fget (dealer_backstop ls (known_values fs)) k = fget fs k"
    by (simp add: dealer_kept)
  moreover from this assms
  have "fget (form_default (dealer_backstop ls (known_values fs))) k = fget fs k"
    by (simp add: form_default_kept)
  ultimately show ?thesis using assms by (simp add: placeholders_kept)
qed

subsection \<open>Inputs without white space\<close>

lemma trim_no_space: "list_all (\<lambda>c. \<not> is_space c) s \<Longrightarrow> trim s = s"
proof -
  assume a: "list_all (\<lambda>c. \<not> is_space c) s"
  then have "dropWhile is_space s = s"
    by (cases s) simp_all
  moreover from a have "list_all (\<lambda>c. \<not> is_space c) (rev s)"
    by (simp add: list_all_iff)
  then have "dropWhile is_space (rev s) = rev s"
    by (cases "rev s") simp_all
  ultimately show ?thesis by (simp add: trim_def)
qed

lemma collapse_no_space: "list_all (\<lambda>c. \<not> is_space c) s \<Longrightarrow> collapse_ws s = s"
  by (induction s) simp_all

subsection \<open>Suffix tokens of a name\<close>

lemma code_char_of: "n < 256 \<Longrightarrow> code (char_of n) = n"
  by (simp add: code_def)

lemma code_less: "code c < 256"
  by (simp add: code_def)

lemma lower_char_letter: "is_lower (lower_char c) \<Longrightarrow> is_lower c \<or> is_upper c"
proof (cases "is_upper c")
  case True
  then show ?thesis by simp
next
  case False
  assume l: "is_lower (lower_char c)"
  show ?thesis
  proof (cases "in_rng (CHR 0xC0) (CHR 0xDE) c \<and> c \<noteq> CHR 0xD7")
    case True
    then have "192 \<le> code c" "code c \<le> 222"
      by (simp_all add: in_rng_def code_def)
    then have "code (char_of (code c + 32)) = code c + 32"
      by (intro code_char_of) simp
    with True False l \<open>192 \<le> code c\<close> show ?thesis
      by (simp add: lower_char_def is_lower_def in_rng_def) (simp add: code_def)
  next
    case False
    with \<open>\<not> is_upper c\<close> l show ?thesis by (auto simp: lower_char_def)
  qed
qed

lemma suffixes_lower: "sfx \<in> set suffixes \<Longrightarrow> list_all is_lower sfx \<and> sfx \<noteq> []"
  by (auto simp: suffixes_def is_lower_def in_rng_def code_def)

lemma suffix_token_normal:
  assumes "List.member suffixes (toLowerCase tok)"
  shows "normalize_part tok = tok" and "tok \<noteq> []"
proof -
  from assms have m: "toLowerCase tok \<in> set suffixes"
    by simp
  from suffixes_lower [OF m] have "list_all is_lower (map lower_char tok)" and ne: "map lower_char tok \<noteq> []"
    by (simp_all add: toLowerCase_def)
  then have "\<forall>c \<in> set tok. is_lower c \<or> is_upper c"
    by (auto simp: list_all_iff dest: lower_char_letter)
  then show "normalize_part tok = tok"
    by (auto simp: normalize_part_def filter_id_conv)
  from ne show "tok \<noteq> []" by simp
qed

lemma initial_of_suffix:
  assumes "List.member suffixes (toLowerCase tok)"
  shows "initial_of tok = tok @ ''.''"
  using suffix_token_normal [OF assms] assms
  by (simp add: initial_of_def Let_def)

lemma concat_filter_nonempty: "concat (filter (\<lambda>x. x \<noteq> []) xs) = concat xs"
  by (induction xs) simp_all

lemma name_parts_blank: "trim name = [] \<Longrightarrow> name_parts name = []"
  by (simp add: name_parts_def)

subsection \<open>What a pattern needs in the input\<close>

lemma rep_rest:
  assumes "\<And>st st'. st' \<in> set (f st) \<Longrightarrow> set (rest st') \<subseteq> set (rest st)"
  shows "st' \<in> set (rep f lo n st) \<Longrightarrow> set (rest st') \<subseteq> set (rest st)"
proof (induction n arbitrary: lo st)
  case 0
  then show ?case by (simp split: if_splits)
next
  case (Suc n)
  from Suc.prems consider
    (iter) st1 where "st1 \<in> set (f st)" "st' \<in> set (rep f (lo - 1) n st1)"
    | (stop) "st' = st"
    by (auto split: if_splits)
  then show ?case
  proof cases
    case iter
    from Suc.IH [OF iter(2)] assms [OF iter(1)] show ?thesis by blast
  next
    case stop
    then show ?thesis by simp
  qed
qed

lemma ms_rest: "st' \<in> set (ms ic r st) \<Longrightarrow> set (rest st') \<subseteq> set (rest st)"
proof (induction r arbitrary: st st')
  case (Cls neg rs)
  then show ?case by (cases "rest st") (auto split: if_splits)
next
  case (Cat r1 r2)
  from Cat.prems obtain st1 where "st1 \<in> set (ms ic r1 st)" "st' \<in> set (ms ic r2 st1)"
    by auto
  with Cat.IH show ?case by blast
next
  case (Alt r1 r2)
  from Alt.prems have "st' \<in> set (ms ic r1 st) \<or> st' \<in> set (ms ic r2 st)" by simp
  with Alt.IH show ?case by blast
next
  case (Grp i r)
  from Grp.prems obtain st1 where "st1 \<in> set (ms ic r st)" "rest st' = rest st1" by auto
  with Grp.IH [of st1 st] show ?case by simp
next
  case (Rep r lo hi)
  from Rep.prems have "st' \<in> set (rep (ms ic r) lo (case hi of None \<Rightarrow> lo + length (rest st) | Some h \<Rightarrow> h) st)"
    by simp
  then show ?case
    by (rule rep_rest [rotated]) (rule Rep.IH)
qed (auto split: if_splits)

text \<open>
  A pattern needs a character with the property \<open>P\<close> when it has no match on an input
  that is free of such characters.
\<close>

definition needs :: "bool \<Rightarrow> (char \<Rightarrow> bool) \<Rightarrow> re \<Rightarrow> bool" where
  "needs ic P r = (\<forall>st. list_all (\<lambda>c. \<not> P c) (rest st) \<longrightarrow> ms ic r st = [])"

lemma needs_Cls: "(\<And>c. cls_match ic neg rs c \<Longrightarrow> P c) \<Longrightarrow> needs ic P (Cls neg rs)"
  by (auto simp: needs_def split: list.splits)

lemma needs_Cat1: "needs ic P r1 \<Longrightarrow> needs ic P (Cat r1 r2)"
  by (simp add: needs_def)

lemma needs_Cat2: "needs ic P r2 \<Longrightarrow> needs ic P (Cat r1 r2)"
proof -
  assume n: "needs ic P r2"
  have "ms ic r2 st1 = []" if "list_all (\<lambda>c. \<not> P c) (rest st)" "st1 \<in> set (ms ic r1 st)" for st st1
  proof -
    from ms_rest [OF that(2)] that(1) have "list_all (\<lambda>c. \<not> P c) (rest st1)"
      by (auto simp: list_all_iff)
    with n show ?thesis by (simp add: needs_def)
  qed
  then show ?thesis by (simp add: needs_def)
qed

lemma needs_Grp: "needs ic P r \<Longrightarrow> needs ic P (Grp i r)"
  by (simp add: needs_def)

lemma rep_first_empty: "f st = [] \<Longrightarrow> 0 < lo \<Longrightarrow> rep f lo n st = []"
  by (cases n) simp_all

lemma needs_Rep: "needs ic P r \<Longrightarrow> 0 < lo \<Longrightarrow> needs ic P (Rep r lo hi)"
  by (simp add: needs_def rep_first_empty)

lemma needs_search:
  "needs ic P r \<Longrightarrow> list_all (\<lambda>c. \<not> P c) s \<Longrightarrow> search ic r p s = None"
  by (induction s arbitrary: p) (simp_all add: needs_def)

lemma needs_match:
  "needs ic P r \<Longrightarrow> list_all (\<lambda>c. \<not> P c) s \<Longrightarrow> re_match ic r s = None"
  by (simp add: re_match_def needs_search)

lemma letter_class:
  "cls_match True False [(CHR ''a'', CHR ''z'')] c \<Longrightarrow> is_lower c \<or> is_upper c"
  by (auto simp: cls_match_def in_ranges_def swap_case_def is_lower_def split: if_splits)

lemma text_needs_letter: "needs True (\<lambda>c. is_lower c \<or> is_upper c) textDateRegex"
  unfolding textDateRegex_def seq_def plus_def foldr.simps o_apply
  by (intro needs_Cat1 needs_Grp needs_Rep needs_Cls letter_class) simp_all

lemma code_inj: "code c = code d \<Longrightarrow> c = d"
  by (simp add: code_def)

lemma slash_class: "cls_match False False [(CHR ''/'', CHR ''/'')] c \<Longrightarrow> c = CHR ''/''"
  by (auto simp: cls_match_def in_ranges_def in_rng_def intro: code_inj)

lemma us_needs_slash: "needs False (\<lambda>c. c = CHR ''/'') usDateRegex"
  unfolding usDateRegex_def seq_def ch_def foldr.simps o_apply
  by (rule needs_Cat2, rule needs_Cat2, rule needs_Cat1, rule needs_Cls, erule slash_class)


subsection \<open>Digits and separators under the classes of the date patterns\<close>

definition is_sep :: "char \<Rightarrow> bool" where
  "is_sep c = (c = CHR ''.'' \<or> c = CHR ''-'')"

lemma digit_code: "is_digit c \<Longrightarrow> 48 \<le> code c \<and> code c \<le> 57"
  by (simp add: is_digit_def in_rng_def code_def)

lemma digit_classes:
  "is_digit c \<Longrightarrow> cls_match ic False [(CHR ''0'', CHR ''9'')] c"
  "is_digit c \<Longrightarrow> \<not> cls_match False False [(CHR ''.'', CHR ''.''), (CHR ''-'', CHR ''-'')] c"
  "is_digit c \<Longrightarrow> \<not> cls_match False False [(CHR ''/'', CHR ''/'')] c"
  "is_digit c \<Longrightarrow> \<not> cls_match False False [(CHR 0x09, CHR 0x0D), (CHR 0x20, CHR 0x20), (CHR 0xA0, CHR 0xA0)] c"
  by (auto simp: cls_match_def in_ranges_def is_digit_def in_rng_def code_def)

lemma sep_classes:
  "is_sep c \<Longrightarrow> \<not> cls_match False False [(CHR ''0'', CHR ''9'')] c"
  "is_sep c \<Longrightarrow> cls_match False False [(CHR ''.'', CHR ''.''), (CHR ''-'', CHR ''-'')] c"
  by (auto simp: cls_match_def in_ranges_def is_sep_def in_rng_def code_def)

lemma slash_classes:
  "\<not> cls_match False False [(CHR ''0'', CHR ''9'')] (CHR ''/'')"
  "cls_match False False [(CHR ''/'', CHR ''/'')] (CHR ''/'')"
  "\<not> cls_match False False [(CHR 0x09, CHR 0x0D), (CHR 0x20, CHR 0x20), (CHR 0xA0, CHR 0xA0)] (CHR ''/'')"
  by (auto simp: cls_match_def in_ranges_def in_rng_def code_def)

lemmas date_re_defs = seq_def rept_def dig_def ch_def star_def ws_def

lemma us_canonical: 
  assumes "is_digit a" "is_digit a'" "is_digit b" "is_digit b'" "is_digit c1" "is_digit c2" "is_digit c3" "is_digit c4" 
  shows "re_match False usDateRegex [a, a', CHR ''/'', b, b', CHR ''/'', c1, c2, c3, c4] = Some \<lparr>m_index = 0, m_text = [a, a', CHR ''/'', b, b', CHR ''/'', c1, c2, c3, c4], m_caps = [(3, [c1,c2,c3,c4]), (2, [b, b']), (1, [a, a'])]\<rparr>"
  using assms
  by (simp add: re_match_def usDateRegex_def date_re_defs eval_nat_numeral digit_classes slash_classes)

subsection \<open>Decimal numerals\<close>

lemma digit_char_code: "k < 10 \<Longrightarrow> code (digit_char k) = 48 + k"
  by (simp add: digit_char_def code_def)

lemma digit_val_digit_char: "k < 10 \<Longrightarrow> digit_val (digit_char k) = k"
  by (simp add: digit_val_def digit_char_code)

lemma is_digit_digit_char: "k < 10 \<Longrightarrow> is_digit (digit_char k)"
  using digit_char_code [of k]
  by (simp add: is_digit_def in_rng_def) (simp add: code_def)

lemma digits_val_snoc: "digits_val (xs @ [c]) = 10 * digits_val xs + digit_val c"
  by (simp add: digits_val_def)

lemma digits_val_toString: "digits_val (toString n) = n"
proof (induction n rule: toString.induct)
  case (1 n)
  show ?case
  proof (cases "n < 10")
    case True
    then show ?thesis
      by (subst toString.simps) (simp add: digits_val_def digit_val_digit_char)
  next
    case False
    with 1 have "digits_val (toString (n div 10)) = n div 10" by simp
    with False show ?thesis
      by (subst toString.simps) (simp add: digits_val_snoc digit_val_digit_char)
  qed
qed

lemma toString_digits: "list_all is_digit (toString n)"
proof (induction n rule: toString.induct)
  case (1 n)
  show ?case
  proof (cases "n < 10")
    case True
    then show ?thesis
      by (subst toString.simps) (simp add: is_digit_digit_char)
  next
    case False
    with 1 have "list_all is_digit (toString (n div 10))" by simp
    with False show ?thesis
      by (subst toString.simps) (simp add: is_digit_digit_char)
  qed
qed

lemma toString_nonempty: "toString n \<noteq> []"
  by (subst toString.simps) simp

lemma length_toString_small: "n < 1000 \<Longrightarrow> length (toString n) \<le> 3"
proof -
  have a: "length (toString k) = 1" if "k < 10" for k
    using that by (subst toString.simps) simp
  have b: "length (toString k) \<le> 2" if "k < 100" for k
    using that a [of "k div 10"] by (subst toString.simps) simp
  show "n < 1000 \<Longrightarrow> length (toString n) \<le> 3"
    using b [of "n div 10"] by (subst toString.simps) simp
qed

lemma digit_val_zero: "digit_val (CHR ''0'') = 0"
  by (simp add: digit_val_def code_def)

lemma digits_val_zeros: "digits_val (replicate k (CHR ''0'') @ s) = digits_val s"
  by (induction k) (simp_all add: digits_val_def digit_val_zero)

lemma digits_val_pad: "digits_val (padStart2 (toString n)) = n"
  by (simp add: padStart2_def digits_val_zeros digits_val_toString)

lemma is_digit_zero: "is_digit (CHR ''0'')"
  by (simp add: is_digit_def in_rng_def code_def)

lemma pad_digits: "list_all is_digit (padStart2 (toString n))"
  using toString_digits [of n]
  by (auto simp: padStart2_def list_all_iff is_digit_zero)

lemma parseInt_digits: "list_all is_digit s \<Longrightarrow> parseInt s = digits_val s"
  by (simp add: parseInt_def list_all_iff takeWhile_eq_all_conv [THEN iffD2])


subsection \<open>The European form\<close>

lemma len_1_2:
  "1 \<le> length xs \<Longrightarrow> length xs \<le> 2 \<Longrightarrow> (\<exists>a. xs = [a]) \<or> (\<exists>a b. xs = [a, b])"
  by (cases xs; cases "tl xs") auto

lemma len_2_4:
  "2 \<le> length xs \<Longrightarrow> length xs \<le> 4
   \<Longrightarrow> (\<exists>a b. xs = [a, b]) \<or> (\<exists>a b c. xs = [a, b, c]) \<or> (\<exists>a b c d. xs = [a, b, c, d])"
  by (cases xs; cases "tl xs"; cases "tl (tl xs)"; cases "tl (tl (tl xs))") auto

lemma eu_match:
  assumes "list_all is_digit d" "1 \<le> length d" "length d \<le> 2"
    and "list_all is_digit m" "1 \<le> length m" "length m \<le> 2"
    and "list_all is_digit y" "2 \<le> length y" "length y \<le> 4"
    and "is_sep s1" "is_sep s2"
  shows "re_match False euDateRegex (d @ s1 # m @ s2 # y) =
           Some \<lparr>m_index = 0, m_text = d @ s1 # m @ s2 # y, m_caps = [(3, y), (2, m), (1, d)]\<rparr>"
  using len_1_2 [OF assms(2,3)] len_1_2 [OF assms(5,6)] len_2_4 [OF assms(8,9)] assms(1,4,7,10,11)
  apply (elim disjE exE)
  apply (simp_all add: re_match_def euDateRegex_def date_re_defs eval_nat_numeral digit_classes sep_classes)
  done

lemma plain_digit:
  "is_digit c \<Longrightarrow> \<not> is_space c" "is_digit c \<Longrightarrow> \<not> is_lower c" "is_digit c \<Longrightarrow> \<not> is_upper c"
  "\<not> is_digit (CHR ''/'')"
  by (auto simp: is_digit_def is_space_def is_lower_def is_upper_def in_rng_def code_def)

lemma plain_sep:
  "is_sep c \<Longrightarrow> \<not> is_space c" "is_sep c \<Longrightarrow> \<not> is_lower c" "is_sep c \<Longrightarrow> \<not> is_upper c"
  "\<not> is_sep (CHR ''/'')"
  by (auto simp: is_sep_def is_space_def is_lower_def is_upper_def in_rng_def code_def)

lemma eu_input_plain:
  assumes "list_all is_digit d" "list_all is_digit m" "list_all is_digit y" "is_sep s1" "is_sep s2"
  shows "list_all (\<lambda>c. \<not> is_space c) (d @ s1 # m @ s2 # y)"
    and "list_all (\<lambda>c. \<not> (is_lower c \<or> is_upper c)) (d @ s1 # m @ s2 # y)"
    and "list_all (\<lambda>c. \<not> c = CHR ''/'') (d @ s1 # m @ s2 # y)"
  using assms by (auto simp: list_all_iff plain_digit plain_sep)

lemma formatDate_eu:
  assumes "list_all is_digit d" "1 \<le> length d" "length d \<le> 2"
    and "list_all is_digit m" "1 \<le> length m" "length m \<le> 2"
    and "list_all is_digit y" "2 \<le> length y" "length y \<le> 4"
    and "is_sep s1" "is_sep s2"
  shows "formatDate (d @ s1 # m @ s2 # y) =
           (if 12 < digits_val d \<and> digits_val m \<le> 12
            then slashed (digits_val m) (digits_val d) (expand_year (digits_val y))
            else slashed (digits_val d) (digits_val m) (expand_year (digits_val y)))"
proof -
  let ?input = "d @ s1 # m @ s2 # y"
  note plain = eu_input_plain [OF assms(1,4,7,10,11)]
  have norm: "collapse_ws ?input = ?input" "trim ?input = ?input"
    using plain(1) by (simp_all add: trim_no_space collapse_no_space)
  have t: "text_date ?input = None"
    using needs_match [OF text_needs_letter plain(2)] by (simp add: text_date_def)
  have u: "us_date ?input = None"
    using needs_match [OF us_needs_slash plain(3)] by (simp add: us_date_def)
  have e: "eu_date ?input =
      Some (if 12 < digits_val d \<and> digits_val m \<le> 12
            then slashed (digits_val m) (digits_val d) (expand_year (digits_val y))
            else slashed (digits_val d) (digits_val m) (expand_year (digits_val y)))"
    using assms(1,4,7)
    by (simp add: eu_date_def eu_match [OF assms] grp_def Let_def parseInt_digits)
  show ?thesis
    by (simp add: formatDate_def Let_def norm t u e)
qed


lemma digit_val_bound: "is_digit c \<Longrightarrow> digit_val c < 10"
  by (auto simp: is_digit_def in_rng_def digit_val_def code_def)

lemma digits_val_bound: "list_all is_digit s \<Longrightarrow> digits_val s < 10 ^ length s"
proof (induction s rule: rev_induct)
  case Nil
  show ?case by (simp add: digits_val_def)
next
  case (snoc c s)
  then have "digits_val s < 10 ^ length s" "digit_val c < 10"
    by (simp_all add: digit_val_bound)
  then show ?case by (simp add: digits_val_snoc)
qed

lemma digits_val_two: "list_all is_digit s \<Longrightarrow> length s \<le> 2 \<Longrightarrow> digits_val s < 100"
proof -
  assume a: "list_all is_digit s" "length s \<le> 2"
  then have "length s = 0 \<or> length s = 1 \<or> length s = 2" by arith
  with digits_val_bound [OF a(1)] show ?thesis by auto
qed

lemma length_pad_two: "n < 100 \<Longrightarrow> length (padStart2 (toString n)) = 2"
proof -
  assume "n < 100"
  have a: "length (toString k) = 1" if "k < 10" for k
    using that by (subst toString.simps) simp
  have "length (toString n) = 1 \<or> length (toString n) = 2"
    using \<open>n < 100\<close> a [of "n div 10"] a [of n] by (subst (1 2) toString.simps) auto
  then show ?thesis by (auto simp: padStart2_def)
qed

subsection \<open>The canonical form\<close>

text \<open>The zero-padded form \<^verbatim>\<open>MM/DD/YYYY\<close>: two digits, a slash, two digits, a slash, four digits.\<close>

fun canonical :: "string \<Rightarrow> bool" where
  "canonical [a, b, s1, c, d, s2, e, f, g, h] =
     (is_digit a \<and> is_digit b \<and> s1 = CHR ''/'' \<and> is_digit c \<and> is_digit d \<and> s2 = CHR ''/''
      \<and> is_digit e \<and> is_digit f \<and> is_digit g \<and> is_digit h)"
| "canonical _ = False"

lemma canonical_shape:
  "canonical y \<Longrightarrow>
   \<exists>a b c d e f g h. y = [a, b, CHR ''/'', c, d, CHR ''/'', e, f, g, h]
     \<and> is_digit a \<and> is_digit b \<and> is_digit c \<and> is_digit d
     \<and> is_digit e \<and> is_digit f \<and> is_digit g \<and> is_digit h"
  by (induction y rule: canonical.induct) auto

lemma formatDate_canonical:
  assumes "is_digit a" "is_digit b" "is_digit c" "is_digit d"
    "is_digit e" "is_digit f" "is_digit g" "is_digit h"
  shows "formatDate [a, b, CHR ''/'', c, d, CHR ''/'', e, f, g, h] =
           slashed (digits_val [a, b]) (digits_val [c, d]) (expand_year (digits_val [e, f, g, h]))"
proof -
  let ?input = "[a, b, CHR ''/'', c, d, CHR ''/'', e, f, g, h]"
  have sp: "list_all (\<lambda>c. \<not> is_space c) ?input"
    using assms by (simp add: plain_digit) (simp add: is_space_def in_rng_def code_def)
  have norm: "collapse_ws ?input = ?input" "trim ?input = ?input"
    using sp by (simp_all only: trim_no_space collapse_no_space)
  have "list_all (\<lambda>c. \<not> (is_lower c \<or> is_upper c)) ?input"
    using assms by (simp add: plain_digit) (simp add: is_lower_def is_upper_def in_rng_def code_def)
  from needs_match [OF text_needs_letter this] have t: "text_date ?input = None"
    by (simp add: text_date_def)
  have u: "us_date ?input =
      Some (slashed (digits_val [a, b]) (digits_val [c, d]) (expand_year (digits_val [e, f, g, h])))"
    using assms by (simp add: us_date_def us_canonical grp_def Let_def parseInt_digits)
  show ?thesis
    by (simp only: formatDate_def Let_def norm t u) simp
qed

lemma take_until_slash:
  "list_all is_digit P \<Longrightarrow> takeWhile (\<lambda>x. x \<noteq> CHR ''/'') (P @ CHR ''/'' # zs) = P"
  by (induction P) (auto simp: plain_digit)

lemma drop_until_slash:
  "list_all is_digit P \<Longrightarrow> dropWhile (\<lambda>x. x \<noteq> CHR ''/'') (P @ CHR ''/'' # zs) = CHR ''/'' # zs"
  by (induction P) (auto simp: plain_digit)

lemma split_slashed:
  assumes "list_all is_digit P" "list_all is_digit Q"
    and eq: "P @ CHR ''/'' # Q @ CHR ''/'' # R = [a, b, CHR ''/'', c, d, CHR ''/'', e, f, g, h]"
    and "is_digit a" "is_digit b" "is_digit c" "is_digit d"
  shows "P = [a, b] \<and> Q = [c, d] \<and> R = [e, f, g, h]"
proof -
  have ne: "a \<noteq> CHR ''/''" "b \<noteq> CHR ''/''" "c \<noteq> CHR ''/''" "d \<noteq> CHR ''/''"
    using assms(4-7) plain_digit(4) by auto
  from take_until_slash [OF assms(1), of "Q @ CHR ''/'' # R"] drop_until_slash [OF assms(1), of "Q @ CHR ''/'' # R"]
  have P: "P = [a, b]" and rest1: "Q @ CHR ''/'' # R = [c, d, CHR ''/'', e, f, g, h]"
    unfolding eq using ne by simp_all
  from take_until_slash [OF assms(2), of R] drop_until_slash [OF assms(2), of R]
  have "Q = [c, d]" and "R = [e, f, g, h]"
    unfolding rest1 using ne by simp_all
  with P show ?thesis by simp
qed

lemma slashed_idem:
  assumes "canonical (slashed m d yr)"
  shows "formatDate (slashed m d yr) = slashed m d yr"
proof -
  let ?P = "padStart2 (toString m)" and ?Q = "padStart2 (toString d)" and ?R = "toString yr"
  have s: "slashed m d yr = ?P @ CHR ''/'' # ?Q @ CHR ''/'' # ?R"
    by (simp add: slashed_def)
  from canonical_shape [OF assms] obtain a b c d' e f g h where
    y: "slashed m d yr = [a, b, CHR ''/'', c, d', CHR ''/'', e, f, g, h]"
    and dg: "is_digit a" "is_digit b" "is_digit c" "is_digit d'"
      "is_digit e" "is_digit f" "is_digit g" "is_digit h"
    by blast
  from split_slashed [OF pad_digits pad_digits y [unfolded s] dg(1-4)]
  have P: "?P = [a, b]" and Q: "?Q = [c, d']" and R: "?R = [e, f, g, h]"
    by simp_all
  have "length ?R = 4" using R by simp
  with length_toString_small [of yr] have "1000 \<le> yr" by (cases "yr < 1000") simp_all
  then have ex: "expand_year yr = yr" by (simp add: expand_year_def)
  have "formatDate (slashed m d yr)
          = slashed (digits_val [a, b]) (digits_val [c, d']) (expand_year (digits_val [e, f, g, h]))"
    unfolding y by (rule formatDate_canonical [OF dg])
  also have "\<dots> = slashed (digits_val ?P) (digits_val ?Q) (expand_year (digits_val ?R))"
    by (simp only: P Q R)
  also have "\<dots> = slashed m d yr"
    by (simp add: digits_val_pad digits_val_toString ex)
  finally show ?thesis .
qed

lemma branch_slashed:
  "text_date n = Some r \<Longrightarrow> \<exists>m d yr. r = slashed m d yr"
  "us_date n = Some r \<Longrightarrow> \<exists>m d yr. r = slashed m d yr"
  "eu_date n = Some r \<Longrightarrow> \<exists>m d yr. r = slashed m d yr"
  by (auto simp: text_date_def us_date_def eu_date_def Let_def split: option.splits if_splits)

lemma canonical_us: "canonical n \<Longrightarrow> us_date n \<noteq> None"
proof -
  assume "canonical n"
  from canonical_shape [OF this] obtain a b c d e f g h where
    "n = [a, b, CHR ''/'', c, d, CHR ''/'', e, f, g, h]"
    "is_digit a" "is_digit b" "is_digit c" "is_digit d"
    "is_digit e" "is_digit f" "is_digit g" "is_digit h"
    by blast
  then show ?thesis
    by (simp add: us_date_def us_canonical Let_def)
qed

subsection \<open>The amount pattern on three groups of digits\<close>

lemma len_1_4:
  "1 \<le> length xs \<Longrightarrow> length xs \<le> 4
   \<Longrightarrow> (\<exists>a. xs = [a]) \<or> (\<exists>a b. xs = [a, b]) \<or> (\<exists>a b c. xs = [a, b, c])
       \<or> (\<exists>a b c d. xs = [a, b, c, d])"
  by (cases xs; cases "tl xs"; cases "tl (tl xs)"; cases "tl (tl (tl xs))") auto

lemma digit_word: "is_digit c \<Longrightarrow> is_word c"
  by (simp add: is_word_def)

lemma space_classes:
  "\<not> cls_match False False [(CHR ''0'', CHR ''9'')] (CHR '' '')"
  "cls_match False False [(CHR 0x09, CHR 0x0D), (CHR 0x20, CHR 0x20), (CHR 0xA0, CHR 0xA0)] (CHR '' '')"
  "\<not> is_word (CHR '' '')"
  by (auto simp: cls_match_def in_ranges_def in_rng_def code_def is_word_def is_lower_def is_upper_def
      is_digit_def)

lemma amount_match:
  assumes "list_all is_digit d1" "1 \<le> length d1" "length d1 \<le> 4"
    and "list_all is_digit d2" "1 \<le> length d2" "length d2 \<le> 4"
    and "list_all is_digit d3" "1 \<le> length d3" "length d3 \<le> 4"
  shows "re_match False amountRegex (d1 @ CHR '' '' # d2 @ CHR '' '' # d3) =
           Some \<lparr>m_index = 0, m_text = d1 @ CHR '' '' # d2 @ CHR '' '' # d3,
                 m_caps = [(3, d3), (2, d2), (1, d1)]\<rparr>"
  using len_1_4 [OF assms(2,3)] len_1_4 [OF assms(5,6)] len_1_4 [OF assms(8,9)] assms(1,4,7)
  apply (elim disjE exE)
  apply (simp_all add: re_match_def amountRegex_def seq_def rept_def dig_def plus_def ws_def
      eval_nat_numeral digit_classes space_classes digit_word)
  done


lemma scaled_basic_nonempty: "scaled_basic s \<noteq> []"
  by (simp add: scaled_basic_def toFixed3_def Let_def)

lemma trim_digits: "list_all is_digit s \<Longrightarrow> trim s = s"
  by (rule trim_no_space) (auto simp: list_all_iff plain_digit)

lemma amount_step_digits:
  assumes "list_all is_digit d1" "1 \<le> length d1" "length d1 \<le> 4"
    and "list_all is_digit d2" "1 \<le> length d2" "length d2 \<le> 4"
    and "list_all is_digit d3" "1 \<le> length d3" "length d3 \<le> 4"
  shows "amount_step (d1 @ CHR '' '' # d2 @ CHR '' '' # d3) fs =
     fset ''TOTAL AMOUNT'' d3 (fset ''INSURANCE AMOUNT'' d2 (fset ''BASIC AMOUNT'' (scaled_basic d1) fs))"
  using assms(4,7) by (simp add: amount_step_def amount_match [OF assms] grp_def trim_digits)

lemma amounts_third_line:
  assumes "3 \<le> length ls" "ls ! 2 = d1 @ CHR '' '' # d2 @ CHR '' '' # d3"
    and "list_all is_digit d1" "1 \<le> length d1" "length d1 \<le> 4"
    and "list_all is_digit d2" "1 \<le> length d2" "length d2 \<le> 4"
    and "list_all is_digit d3" "1 \<le> length d3" "length d3 \<le> 4"
  shows "fget (extract_fields ls) ''BASIC AMOUNT'' = scaled_basic d1"
    and "fget (extract_fields ls) ''INSURANCE AMOUNT'' = d2"
    and "fget (extract_fields ls) ''TOTAL AMOUNT'' = d3"
  using assms(1,2)
  by (simp_all add: extract_fields_def Let_def other_scan_first other_steps3 third_line_def
      amount_step_digits [OF assms(3-11)] fget_fset)

subsection \<open>Inputs without digits\<close>

lemma digit_class: "cls_match ic False [(CHR ''0'', CHR ''9'')] c \<Longrightarrow> is_digit c"
proof -
  assume a: "cls_match ic False [(CHR ''0'', CHR ''9'')] c"
  have "is_digit c" if "is_digit (swap_case c)"
  proof (cases "is_lower c \<or> is_upper c")
    case False
    with that show ?thesis by (simp add: swap_case_def)
  next
    case True
    then have "65 \<le> code (swap_case c)"
      by (auto simp: swap_case_def is_lower_def is_upper_def in_rng_def code_def)
    with that show ?thesis
      by (simp add: is_digit_def in_rng_def) (simp add: code_def)
  qed
  with a show ?thesis
    by (auto simp: cls_match_def in_ranges_def is_digit_def)
qed

lemma text_needs_digit: "needs True is_digit textDateRegex"
  unfolding textDateRegex_def seq_def rept_def dig_def foldr.simps o_apply
  by (rule needs_Cat2, rule needs_Cat2, rule needs_Cat2, rule needs_Cat1, rule needs_Grp,
      rule needs_Rep, rule needs_Cls, erule digit_class, simp)

lemma us_needs_digit: "needs False is_digit usDateRegex"
  unfolding usDateRegex_def seq_def rept_def dig_def foldr.simps o_apply
  by (rule needs_Cat1, rule needs_Grp, rule needs_Rep, rule needs_Cls, erule digit_class, simp)

lemma eu_needs_digit: "needs False is_digit euDateRegex"
  unfolding euDateRegex_def seq_def rept_def dig_def foldr.simps o_apply
  by (rule needs_Cat1, rule needs_Grp, rule needs_Rep, rule needs_Cls, erule digit_class, simp)

lemma set_trim: "set (trim s) \<subseteq> set s"
proof -
  have "set (dropWhile is_space (rev (dropWhile is_space s))) \<subseteq> set (rev (dropWhile is_space s))"
    by (rule set_dropWhileD [THEN subsetI])
  also have "\<dots> \<subseteq> set s"
    using set_dropWhileD [of _ is_space s] by auto
  finally show ?thesis by (simp add: trim_def)
qed

lemma set_collapse_ws: "set (collapse_ws s) \<subseteq> insert (CHR 0x20) (set s)"
proof (induction s rule: collapse_ws.induct)
  case 1
  show ?case by simp
next
  case (2 c cs)
  show ?case
  proof (cases "is_space c")
    case True
    with 2 have "set (collapse_ws (dropWhile is_space cs)) \<subseteq> insert (CHR 0x20) (set (dropWhile is_space cs))"
      by simp
    moreover have "set (dropWhile is_space cs) \<subseteq> set cs"
      using set_dropWhileD [of _ is_space cs] by auto
    ultimately show ?thesis using True by auto
  next
    case False
    with 2 show ?thesis by auto
  qed
qed

lemma no_digit_normal:
  assumes "list_all (\<lambda>c. \<not> is_digit c) s"
  shows "list_all (\<lambda>c. \<not> is_digit c) (collapse_ws (trim s))"
proof -
  have "\<not> is_digit (CHR 0x20)"
    by (simp add: is_digit_def in_rng_def code_def)
  with assms set_trim [of s] set_collapse_ws [of "trim s"] show ?thesis
    by (auto simp: list_all_iff)
qed

lemma no_digit_no_date:
  assumes "list_all (\<lambda>c. \<not> is_digit c) s"
  shows "text_date (collapse_ws (trim s)) = None"
    and "us_date (collapse_ws (trim s)) = None"
    and "eu_date (collapse_ws (trim s)) = None"
  using needs_match [OF text_needs_digit no_digit_normal [OF assms]]
    needs_match [OF us_needs_digit no_digit_normal [OF assms]]
    needs_match [OF eu_needs_digit no_digit_normal [OF assms]]
  by (simp_all add: text_date_def us_date_def eu_date_def)

subsection \<open>Results in the canonical form\<close>

lemma length_toString_four: "1000 \<le> n \<Longrightarrow> n < 10000 \<Longrightarrow> length (toString n) = 4"
proof -
  assume n: "1000 \<le> n" "n < 10000"
  have a: "length (toString k) = 1" if "k < 10" for k
    using that by (subst toString.simps) simp
  have b: "length (toString k) = 2" if "10 \<le> k" "k < 100" for k
    using that a [of "k div 10"] by (subst toString.simps) simp
  have c: "length (toString k) = 3" if "100 \<le> k" "k < 1000" for k
    using that b [of "k div 10"] by (subst toString.simps) simp
  show ?thesis
    using n c [of "n div 10"] by (subst toString.simps) simp
qed

lemma canonical_slashed:
  assumes "a < 100" "b < 100" "1000 \<le> yr" "yr < 10000"
  shows "canonical (slashed a b yr)"
proof -
  from length_pad_two [OF assms(1)] obtain p1 p2 where P: "padStart2 (toString a) = [p1, p2]"
    by (auto simp: length_Suc_conv eval_nat_numeral)
  from length_pad_two [OF assms(2)] obtain q1 q2 where Q: "padStart2 (toString b) = [q1, q2]"
    by (auto simp: length_Suc_conv eval_nat_numeral)
  from length_toString_four [OF assms(3,4)] obtain r1 r2 r3 r4 where R: "toString yr = [r1, r2, r3, r4]"
    by (auto simp: length_Suc_conv eval_nat_numeral)
  from pad_digits [of a] pad_digits [of b] toString_digits [of yr]
  show ?thesis
    by (simp add: slashed_def P Q R)
qed

lemma expand_year_two: "yr < 100 \<Longrightarrow> 1000 \<le> expand_year yr \<and> expand_year yr < 10000"
  by (simp add: expand_year_def)

lemma digit_val_positive: "is_digit c \<Longrightarrow> c \<noteq> CHR ''0'' \<Longrightarrow> 1 \<le> digit_val c"
proof -
  assume d: "is_digit c" and n: "c \<noteq> CHR ''0''"
  have "code c \<noteq> 48"
  proof
    assume "code c = 48"
    then have "code c = code (CHR ''0'')" by (simp add: code_def)
    then have "c = CHR ''0''" by (rule code_inj)
    with n show False by simp
  qed
  with digit_code [OF d] show ?thesis unfolding digit_val_def by arith
qed

lemma digits_val_four:
  assumes "list_all is_digit y" "length y = 4" "hd y \<noteq> CHR ''0''"
  shows "1000 \<le> digits_val y \<and> digits_val y < 10000"
proof -
  from assms(2) obtain a b c d where y: "y = [a, b, c, d]"
    by (auto simp: length_Suc_conv eval_nat_numeral)
  with assms have "is_digit a" "a \<noteq> CHR ''0''" by simp_all
  then have "1 \<le> digit_val a" by (rule digit_val_positive)
  then have "1000 \<le> digits_val y" by (simp add: y digits_val_def)
  moreover from digits_val_bound [OF assms(1)] assms(2) have "digits_val y < 10000" by simp
  ultimately show ?thesis by simp
qed

lemma year_in_range:
  assumes "list_all is_digit y" "length y = 2 \<or> (length y = 4 \<and> hd y \<noteq> CHR ''0'')"
  shows "1000 \<le> expand_year (digits_val y) \<and> expand_year (digits_val y) < 10000"
proof (cases "length y = 2")
  case True
  with digits_val_two [OF assms(1)] show ?thesis by (simp add: expand_year_two)
next
  case False
  with assms digits_val_four [of y] have "1000 \<le> digits_val y \<and> digits_val y < 10000" by simp
  then show ?thesis by (simp add: expand_year_def)
qed

subsection \<open>The browser copy of the date normalizer\<close>

lemma client_eq:
  "formatDate_client s =
     (if trim s \<noteq> [] \<and> text_date (collapse_ws (trim s)) = None
         \<and> us_date (collapse_ws (trim s)) = None \<and> eu_date (collapse_ws (trim s)) = None
      then (case month_year_date (collapse_ws (trim s)) of
              Some r \<Rightarrow> r
            | None \<Rightarrow> collapse_ws (trim s))
      else formatDate s)"
  by (simp add: formatDate_client_def formatDate_def Let_def split: option.splits)

lemma pad_fifteen: "padStart2 (toString 15) = ''15''"
  by code_simp

lemma month_year_slashed: "month_year_date n = Some r \<Longrightarrow> \<exists>m yr. r = slashed m 15 yr"
  by (auto simp: month_year_date_def Let_def slashed_def pad_fifteen split: option.splits)

lemma canonical_plain: "canonical y \<Longrightarrow> list_all (\<lambda>c. \<not> is_space c) y"
proof -
  assume "canonical y"
  from canonical_shape [OF this] obtain a b c d e f g h where
    "y = [a, b, CHR ''/'', c, d, CHR ''/'', e, f, g, h]"
    "is_digit a" "is_digit b" "is_digit c" "is_digit d"
    "is_digit e" "is_digit f" "is_digit g" "is_digit h"
    by blast
  then show ?thesis
    by (simp add: plain_digit) (simp add: is_space_def in_rng_def code_def)
qed

lemma canonical_client:
  assumes "canonical y"
  shows "formatDate_client y = formatDate y"
proof -
  from canonical_plain [OF assms] have "collapse_ws (trim y) = y"
    by (simp add: trim_no_space collapse_no_space)
  with canonical_us [OF assms] have "us_date (collapse_ws (trim y)) \<noteq> None"
    by simp
  then have "\<not> (trim y \<noteq> [] \<and> text_date (collapse_ws (trim y)) = None
         \<and> us_date (collapse_ws (trim y)) = None \<and> eu_date (collapse_ws (trim y)) = None)"
    by blast
  then show ?thesis
    by (simp only: client_eq if_False)
qed

lemma client_result:
  "formatDate_client x = formatDate x
   \<or> (\<exists>m yr. formatDate_client x = slashed m 15 yr)"
proof (cases "formatDate_client x = formatDate x")
  case False
  then obtain r where "month_year_date (collapse_ws (trim x)) = Some r" "formatDate_client x = r"
    by (auto simp: client_eq formatDate_def Let_def split: option.splits if_splits)
  with month_year_slashed show ?thesis by blast
qed simp


lemma client_eu:
  assumes "list_all is_digit d" "1 \<le> length d" "length d \<le> 2"
    and "list_all is_digit m" "1 \<le> length m" "length m \<le> 2"
    and "list_all is_digit y" "2 \<le> length y" "length y \<le> 4"
    and "is_sep s1" "is_sep s2"
  shows "formatDate_client (d @ s1 # m @ s2 # y) = formatDate (d @ s1 # m @ s2 # y)"
proof -
  let ?input = "d @ s1 # m @ s2 # y"
  from eu_input_plain(1) [OF assms(1,4,7,10,11)]
  have norm: "collapse_ws (trim ?input) = ?input"
    by (simp add: trim_no_space collapse_no_space)
  have "eu_date ?input \<noteq> None"
    by (simp add: eu_date_def eu_match [OF assms] Let_def)
  with norm have "\<not> (trim ?input \<noteq> [] \<and> text_date (collapse_ws (trim ?input)) = None
         \<and> us_date (collapse_ws (trim ?input)) = None \<and> eu_date (collapse_ws (trim ?input)) = None)"
    by simp
  then show ?thesis
    by (simp only: client_eq if_False)
qed

lemma month_year_needs_digit: "needs True is_digit monthYearRegex"
  unfolding monthYearRegex_def seq_def rept_def dig_def foldr.simps o_apply
  by (rule needs_Cat2, rule needs_Cat2, rule needs_Cat2, rule needs_Cat1, rule needs_Grp,
      rule needs_Rep, rule needs_Cls, erule digit_class, simp)

lemma no_digit_no_month_year:
  assumes "list_all (\<lambda>c. \<not> is_digit c) s"
  shows "month_year_date (collapse_ws (trim s)) = None"
  using needs_match [OF month_year_needs_digit no_digit_normal [OF assms]]
  by (simp add: month_year_date_def)

lemma client_fallback:
  assumes "text_date (collapse_ws (trim s)) = None" "us_date (collapse_ws (trim s)) = None"
    "eu_date (collapse_ws (trim s)) = None" "month_year_date (collapse_ws (trim s)) = None"
  shows "formatDate_client s = collapse_ws (trim s)"
  using assms by (simp add: formatDate_client_def Let_def)

subsection \<open>The scaled amount of a short group\<close>

lemma hd_filter_holds: "x \<in> set xs \<Longrightarrow> P x \<Longrightarrow> P (hd (filter P xs))"
proof -
  assume "x \<in> set xs" "P x"
  then have "filter P xs \<noteq> []" by (auto simp: filter_empty_conv)
  then have "hd (filter P xs) \<in> set (filter P xs)" by (rule hd_in_set)
  then show ?thesis by simp
qed

lemma div_million_small:
  assumes "0 \<le> n" "n < 10000"
  shows "0 \<le> fst (div_million n) \<and> 2000 * fst (div_million n) < 21 * 2 ^ snd (div_million n)"
proof (cases "n = 0")
  case True
  then show ?thesis by (simp add: div_million_def)
next
  case False
  with assms have pos: "0 < n" by simp
  define sh where "sh = hd (filter (\<lambda>sh. 2 ^ 52 \<le> n * 2 ^ sh div 1000000) [0..<73])"
  define q where "q = n * 2 ^ sh div 1000000"
  have "(2::int) ^ 52 \<le> 1 * 2 ^ 72 div 1000000" by simp
  also have "\<dots> \<le> n * 2 ^ 72 div 1000000"
    using pos by (intro zdiv_mono1 mult_right_mono) simp_all
  finally have "2 ^ 52 \<le> n * 2 ^ 72 div 1000000" .
  with hd_filter_holds [of 72 "[0..<73]" "\<lambda>sh. 2 ^ 52 \<le> n * 2 ^ sh div 1000000"]
  have big: "2 ^ 52 \<le> q" by (simp add: sh_def q_def)
  have "1000000 * q \<le> n * 2 ^ sh"
    unfolding q_def by (simp add: mult.commute [of 1000000])
  also have "\<dots> < 10000 * 2 ^ sh"
    using assms(2) by simp
  finally have q: "100 * q < 2 ^ sh" by simp
  with big have "(2000::int) \<le> 2 ^ sh" by simp
  with q have "2000 * (q + 1) < 21 * 2 ^ sh" by simp
  moreover have "0 \<le> q" using big by simp
  moreover have "fst (div_million n) = q \<or> fst (div_million n) = q + 1"
    "snd (div_million n) = sh"
    using False by (simp_all add: div_million_def Let_def sh_def q_def)
  ultimately show ?thesis by auto
qed

lemma int_div_less:
  assumes "0 < b" "a < c * b"
  shows "a div b < (c::int)"
proof (rule ccontr)
  assume "\<not> a div b < c"
  with assms(1) have "c * b \<le> (a div b) * b" by (simp add: mult_right_mono)
  also have "\<dots> \<le> a"
    using pos_mod_sign [OF assms(1), of a] div_mult_mod_eq [of a b] by linarith
  finally show False using assms(2) by simp
qed

lemma fixed3_small:
  "list_all (\<lambda>j. (let m = toString j; z = replicate (4 - length m) (CHR ''0'') @ m
                   in take (length z - 3) z @ ''.'' @ drop (length z - 3) z)
        \<in> set [''0.000'', ''0.001'', ''0.002'', ''0.003'', ''0.004'', ''0.005'',
                ''0.006'', ''0.007'', ''0.008'', ''0.009'', ''0.010''])
     [0, 1, 2, 3, 4, 5, 6, 7, 8, 9, 10]"
  by code_simp

lemma toFixed3_small:
  assumes "0 \<le> fst x" "2000 * fst x < 21 * 2 ^ snd x"
  shows "toFixed3 x \<in> set [''0.000'', ''0.001'', ''0.002'', ''0.003'', ''0.004'', ''0.005'',
                ''0.006'', ''0.007'', ''0.008'', ''0.009'', ''0.010'']"
proof -
  define k where "k = (2000 * fst x + 2 ^ snd x) div 2 ^ (snd x + 1)"
  have "0 \<le> k"
    unfolding k_def using assms(1) by (intro pos_imp_zdiv_nonneg_iff [THEN iffD2]) simp_all
  moreover have "k < 11"
  proof -
    have "2000 * fst x + 2 ^ snd x < 11 * 2 ^ (snd x + 1)" using assms(2) by simp
    then show ?thesis unfolding k_def
      by (intro int_div_less) simp_all
  qed
  ultimately have "nat k \<in> set [0, 1, 2, 3, 4, 5, 6, 7, 8, 9, 10]" by (simp; arith)
  with fixed3_small have
    "(let m = toString (nat k); z = replicate (4 - length m) (CHR ''0'') @ m
      in take (length z - 3) z @ ''.'' @ drop (length z - 3) z)
       \<in> set [''0.000'', ''0.001'', ''0.002'', ''0.003'', ''0.004'', ''0.005'',
                ''0.006'', ''0.007'', ''0.008'', ''0.009'', ''0.010'']"
    unfolding list_all_iff by blast
  then show ?thesis
    unfolding toFixed3_def k_def [symmetric] by (simp only: Let_def)
qed

lemma scaled_basic_small:
  assumes "list_all is_digit d" "length d \<le> 4"
  shows "scaled_basic d \<in> set [''0.000'', ''0.001'', ''0.002'', ''0.003'', ''0.004'', ''0.005'',
                ''0.006'', ''0.007'', ''0.008'', ''0.009'', ''0.010'']"
proof -
  have t: "takeWhile is_digit d = d" using assms(1) by (simp add: list_all_iff)
  from digits_val_bound [OF assms(1)] have "digits_val d < 10 ^ length d" .
  also have "\<dots> \<le> 10 ^ 4" using assms(2) by (intro power_increasing) simp_all
  finally have "int (digits_val d) < 10000" by simp
  from div_million_small [OF _ this] show ?thesis
    unfolding scaled_basic_def t by (intro toFixed3_small) simp_all
qed

subsection \<open>The year of a canonical result\<close>

lemma canonical_year:
  assumes "canonical (slashed m d yr)"
  shows "1000 \<le> yr"
proof -
  let ?P = "padStart2 (toString m)" and ?Q = "padStart2 (toString d)" and ?R = "toString yr"
  have s: "slashed m d yr = ?P @ CHR ''/'' # ?Q @ CHR ''/'' # ?R"
    by (simp add: slashed_def)
  from canonical_shape [OF assms] obtain a b c d' e f g h where
    y: "slashed m d yr = [a, b, CHR ''/'', c, d', CHR ''/'', e, f, g, h]"
    and dg: "is_digit a" "is_digit b" "is_digit c" "is_digit d'"
    by blast
  from split_slashed [OF pad_digits pad_digits y [unfolded s] dg]
  have "length ?R = 4" by simp
  with length_toString_small [of yr] show ?thesis by (cases "yr < 1000") simp_all
qed

lemma canonical_eu_year:
  assumes "a < 100" "b < 100" "v < 10000"
  shows "canonical (slashed a b (expand_year v)) = (v < 100 \<or> 1000 \<le> v)"
proof
  assume "canonical (slashed a b (expand_year v))"
  then have "1000 \<le> expand_year v" by (rule canonical_year)
  then show "v < 100 \<or> 1000 \<le> v" by (simp add: expand_year_def split: if_splits)
next
  assume "v < 100 \<or> 1000 \<le> v"
  with assms(3) have "1000 \<le> expand_year v" "expand_year v < 10000"
    by (auto simp: expand_year_def)
  with assms(1,2) show "canonical (slashed a b (expand_year v))"
    by (simp add: canonical_slashed)
qed

lemma digits_val_year:
  assumes "list_all is_digit y" "length y \<le> 4"
  shows "digits_val y < 10000"
proof -
  from digits_val_bound [OF assms(1)] have "digits_val y < 10 ^ length y" .
  also have "\<dots> \<le> 10 ^ 4" using assms(2) by (intro power_increasing) simp_all
  finally show ?thesis by simp
qed

section \<open>The claims\<close>

text \<open>
  A runtime for the closed instances below: its date parser rejects every string, and the
  computed total is empty.
\<close>

definition no_dates :: runtime where
  "no_dates = \<lparr>date_of_parts = (\<lambda>year monthIndex day. None),
               date_of_string = (\<lambda>s. None),
               total_of = (\<lambda>basic insurance. [])\<rparr>"

text \<open>
  C1. For every input text \<^verbatim>\<open>parseFormData\<close> returns: it neither raises nor loops, and
  its result is a list with at least one record. For the empty text the result is exactly
  one record: the default form number, the seven placeholder values, and the empty string
  in every other field.
\<close>

theorem parseFormData_never_fails:
  "(\<exists>rs. parseFormData rt text = Inr rs \<and> rs \<noteq> [])
   \<and> parseFormData rt [] = Inr [
      [(''FORM NO'', ''12428_000065''), (''RECORD NO'', []),
       (''SALES DATE'', []), (''CUSTOMER NAME'', []), (''INITIALS'', []),
       (''E-MAIL ADDRESS'', []), (''DEALER NAME'', []),
       (''CUSTOMER ADDRESS'', []), (''CITY'', []), (''STATE'', []),
       (''CUSTOMER PHONE'', []), (''DEALER PHONE'', []),
       (''DELIVERY TIME'', ''Anytime''), (''INVOICE NO'', []),
       (''INSURANCE POLICY NO'', []), (''CHESIS NO'', []),
       (''BASIC AMOUNT'', ''0.022''), (''INSURANCE AMOUNT'', ''880''),
       (''TOTAL AMOUNT'', ''22880''), (''DISCOUNT'', ''5.0''),
       (''NET AMOUNT'', ''21736.00''), (''EMPLOYER'', ''SelfEmployed''),
       (''CREDIT CARD NO'', []), (''REMARK'', [])]]"
  using parseFormData_returns empty_text by blast

theorem parseFormData_never_fails_witness:
  "\<exists>rs. parseFormData no_dates ''FORM NO: 12345_123456'' = Inr rs \<and> rs \<noteq> []"
  using parseFormData_never_fails [of no_dates "''FORM NO: 12345_123456''"] by blast




text \<open>
  C10. For every input the record of \<^verbatim>\<open>parseFormRecord\<close> has a non-empty form number,
  which is the default \<^verbatim>\<open>12428_000065\<close> when the lines yield none. Hence the filter of
  the orchestrator keeps every parsed record: the loop over the spans returns as many
  records as there are spans, and the branch that calls the undefined
  \<^verbatim>\<open>getDefaultFields\<close> is never taken.
\<close>

theorem form_no_never_empty:
  "fget (parseFormRecord rt text) ''FORM NO'' \<noteq> []
   \<and> (fget (extract_fields (clean_lines text)) ''FORM NO'' = []
        \<longrightarrow> fget (parseFormRecord rt text) ''FORM NO'' = ''12428_000065'')
   \<and> has_data (parseFormRecord rt text)
   \<and> length (foldl (record_step rt lines) [] sps) = length sps
   \<and> parseFormData rt text \<noteq> Inl ReferenceError"
proof -
  have "fget (parseFormRecord rt text) ''FORM NO'' = ''12428_000065''"
    if none: "fget (extract_fields (clean_lines text)) ''FORM NO'' = []"
  proof -
    let ?d = "derive_fields rt (extract_fields (clean_lines text))"
    have "fget ?d ''FORM NO'' = []"
      using none by (simp add: other_derive)
    with known_form_cases [of ?d]
    have "fget (known_values ?d) ''FORM NO'' = [] \<or> fget (known_values ?d) ''FORM NO'' = ''12428_000065''"
      by auto
    then have "fget (dealer_backstop (clean_lines text) (known_values ?d)) ''FORM NO'' = []
      \<or> fget (dealer_backstop (clean_lines text) (known_values ?d)) ''FORM NO'' = ''12428_000065''"
      by (simp add: other_dealer)
    then have *: "fget (form_default (dealer_backstop (clean_lines text) (known_values ?d))) ''FORM NO''
      = ''12428_000065''"
      by (auto simp: form_default_form_no)
    then have "fget (form_default (dealer_backstop (clean_lines text) (known_values ?d))) ''FORM NO'' \<noteq> []"
      by simp
    from placeholders_kept [OF this] * show ?thesis
      by (simp add: parseFormRecord_def Let_def)
  qed
  moreover from parseFormData_returns obtain rs where "parseFormData rt text = Inr rs"
    by blast
  ultimately show ?thesis
    using form_no_parse has_data_parse by (simp add: records_fold)
qed

theorem form_no_never_empty_witness:
  "fget (extract_fields (clean_lines ''hello'')) ''FORM NO'' = []
   \<and> fget (parseFormRecord no_dates ''hello'') ''FORM NO'' = ''12428_000065''
   \<and> has_data (parseFormRecord no_dates ''hello'')
   \<and> parseFormData no_dates ''hello'' \<noteq> Inl ReferenceError"
proof -
  have none: "fget (extract_fields (clean_lines ''hello'')) ''FORM NO'' = []"
    by code_simp
  with form_no_never_empty [of no_dates "''hello''"] show ?thesis
    by blast
qed

text \<open>
  C3, at a failing input. The amount pattern takes groups of one to four digits. The line
  \<^verbatim>\<open>45 4500 49500\<close> stands for the amounts 0.045, 4500 and 49500 of the repository's own
  example (\<^verbatim>\<open>0.045 * 1000000 + 4500 = 49500\<close> in the total computation of the browser
  component). It has a total of five digits: the pattern does not match it, nothing is
  extracted from it, and the three amounts of the record are the placeholders 0.022, 880
  and 22880, whatever the runtime's date and number services return. The line
  \<^verbatim>\<open>45000 4500 49500\<close>, whose first number divided by 1,000,000 is 0.045, is not matched
  either. On every third line that consists of three groups of one to four digits
  separated by single spaces, BASIC AMOUNT becomes the first number divided by 1,000,000
  and printed with three decimals, which is one of \<^verbatim>\<open>0.000\<close> to \<^verbatim>\<open>0.010\<close> (for 45 it is
  \<^verbatim>\<open>0.000\<close>), INSURANCE AMOUNT the second group and TOTAL AMOUNT the third, of at most
  four digits: no such line gives 0.045 or 49500.
\<close>

theorem third_line_amounts:
  "re_match False amountRegex ''45 4500 49500'' = None
   \<and> re_match False amountRegex ''45000 4500 49500'' = None
   \<and> clean_lines (''a'' @ [CHR 0x0A] @ ''b'' @ [CHR 0x0A] @ ''45 4500 49500'') ! 2 = ''45 4500 49500''
   \<and> fget (parseFormRecord rt (''a'' @ [CHR 0x0A] @ ''b'' @ [CHR 0x0A] @ ''45 4500 49500''))
        ''BASIC AMOUNT'' = ''0.022''
   \<and> fget (parseFormRecord rt (''a'' @ [CHR 0x0A] @ ''b'' @ [CHR 0x0A] @ ''45 4500 49500''))
        ''INSURANCE AMOUNT'' = ''880''
   \<and> fget (parseFormRecord rt (''a'' @ [CHR 0x0A] @ ''b'' @ [CHR 0x0A] @ ''45 4500 49500''))
        ''TOTAL AMOUNT'' = ''22880''
   \<and> scaled_basic ''45'' = ''0.000''
   \<and> (3 \<le> length (clean_lines input)
        \<and> clean_lines input ! 2 = d1 @ '' '' @ d2 @ '' '' @ d3
        \<and> list_all is_digit d1 \<and> 1 \<le> length d1 \<and> length d1 \<le> 4
        \<and> list_all is_digit d2 \<and> 1 \<le> length d2 \<and> length d2 \<le> 4
        \<and> list_all is_digit d3 \<and> 1 \<le> length d3 \<and> length d3 \<le> 4
        \<longrightarrow> fget (parseFormRecord rt input) ''BASIC AMOUNT'' = scaled_basic d1
            \<and> scaled_basic d1 \<in> set [''0.000'', ''0.001'', ''0.002'', ''0.003'', ''0.004'',
                 ''0.005'', ''0.006'', ''0.007'', ''0.008'', ''0.009'', ''0.010'']
            \<and> fget (parseFormRecord rt input) ''INSURANCE AMOUNT'' = d2
            \<and> fget (parseFormRecord rt input) ''TOTAL AMOUNT'' = d3)"
proof -
  have closed: "re_match False amountRegex ''45 4500 49500'' = None
   \<and> re_match False amountRegex ''45000 4500 49500'' = None
   \<and> clean_lines (''a'' @ [CHR 0x0A] @ ''b'' @ [CHR 0x0A] @ ''45 4500 49500'') ! 2 = ''45 4500 49500''
   \<and> fget (parseFormRecord rt (''a'' @ [CHR 0x0A] @ ''b'' @ [CHR 0x0A] @ ''45 4500 49500''))
        ''BASIC AMOUNT'' = ''0.022''
   \<and> fget (parseFormRecord rt (''a'' @ [CHR 0x0A] @ ''b'' @ [CHR 0x0A] @ ''45 4500 49500''))
        ''INSURANCE AMOUNT'' = ''880''
   \<and> fget (parseFormRecord rt (''a'' @ [CHR 0x0A] @ ''b'' @ [CHR 0x0A] @ ''45 4500 49500''))
        ''TOTAL AMOUNT'' = ''22880''
   \<and> scaled_basic ''45'' = ''0.000''"
    by code_simp
  have general: "fget (parseFormRecord rt input) ''BASIC AMOUNT'' = scaled_basic d1
         \<and> scaled_basic d1 \<in> set [''0.000'', ''0.001'', ''0.002'', ''0.003'', ''0.004'',
                 ''0.005'', ''0.006'', ''0.007'', ''0.008'', ''0.009'', ''0.010'']
         \<and> fget (parseFormRecord rt input) ''INSURANCE AMOUNT'' = d2
         \<and> fget (parseFormRecord rt input) ''TOTAL AMOUNT'' = d3"
    if h: "3 \<le> length (clean_lines input)"
      "clean_lines input ! 2 = d1 @ '' '' @ d2 @ '' '' @ d3"
      "list_all is_digit d1" "1 \<le> length d1" "length d1 \<le> 4"
      "list_all is_digit d2" "1 \<le> length d2" "length d2 \<le> 4"
      "list_all is_digit d3" "1 \<le> length d3" "length d3 \<le> 4"
  proof -
    let ?e = "extract_fields (clean_lines input)"
    from h(2) have l: "clean_lines input ! 2 = d1 @ CHR '' '' # d2 @ CHR '' '' # d3" by simp
    note e = amounts_third_line [OF h(1) l h(3-11)]
    from h(7,10) have ne: "d2 \<noteq> []" "d3 \<noteq> []" by auto
    from e(3) ne have t: "fget ?e ''TOTAL AMOUNT'' \<noteq> []" by simp
    have d: "fget (derive_fields rt ?e) ''BASIC AMOUNT'' = scaled_basic d1"
      "fget (derive_fields rt ?e) ''INSURANCE AMOUNT'' = d2"
      "fget (derive_fields rt ?e) ''TOTAL AMOUNT'' = d3"
      using e by (simp_all add: derive_amounts_kept [OF t])
    have "fget (derive_fields rt ?e) ''BASIC AMOUNT'' \<noteq> []"
      "fget (derive_fields rt ?e) ''INSURANCE AMOUNT'' \<noteq> []"
      "fget (derive_fields rt ?e) ''TOTAL AMOUNT'' \<noteq> []"
      using d ne by (simp_all add: scaled_basic_nonempty)
    from this [THEN final_kept, of "clean_lines input"] d
    have "fget (parseFormRecord rt input) ''BASIC AMOUNT'' = scaled_basic d1
           \<and> fget (parseFormRecord rt input) ''INSURANCE AMOUNT'' = d2
           \<and> fget (parseFormRecord rt input) ''TOTAL AMOUNT'' = d3"
      by (simp add: parseFormRecord_def Let_def)
    with scaled_basic_small [OF h(3,5)] show ?thesis by blast
  qed
  from closed general show ?thesis by blast
qed

theorem third_line_amounts_witness:
  "3 \<le> length (clean_lines (''a'' @ [CHR 0x0A] @ ''b'' @ [CHR 0x0A] @ ''45 4500 4950''))
   \<and> clean_lines (''a'' @ [CHR 0x0A] @ ''b'' @ [CHR 0x0A] @ ''45 4500 4950'') ! 2
       = ''45'' @ '' '' @ ''4500'' @ '' '' @ ''4950''
   \<and> fget (parseFormRecord no_dates (''a'' @ [CHR 0x0A] @ ''b'' @ [CHR 0x0A] @ ''45 4500 4950''))
        ''BASIC AMOUNT'' = ''0.000''
   \<and> fget (parseFormRecord no_dates (''a'' @ [CHR 0x0A] @ ''b'' @ [CHR 0x0A] @ ''45 4500 4950''))
        ''INSURANCE AMOUNT'' = ''4500''
   \<and> fget (parseFormRecord no_dates (''a'' @ [CHR 0x0A] @ ''b'' @ [CHR 0x0A] @ ''45 4500 4950''))
        ''TOTAL AMOUNT'' = ''4950''"
proof -
  have h: "3 \<le> length (clean_lines (''a'' @ [CHR 0x0A] @ ''b'' @ [CHR 0x0A] @ ''45 4500 4950''))"
    "clean_lines (''a'' @ [CHR 0x0A] @ ''b'' @ [CHR 0x0A] @ ''45 4500 4950'') ! 2
       = ''45'' @ '' '' @ ''4500'' @ '' '' @ ''4950''"
    "list_all is_digit ''45''" "1 \<le> length ''45''" "length ''45'' \<le> 4"
    "list_all is_digit ''4500''" "1 \<le> length ''4500''" "length ''4500'' \<le> 4"
    "list_all is_digit ''4950''" "1 \<le> length ''4950''" "length ''4950'' \<le> 4"
    by code_simp+
  have v: "scaled_basic ''45'' = ''0.000''" by code_simp
  from third_line_amounts
    [where input = "''a'' @ [CHR 0x0A] @ ''b'' @ [CHR 0x0A] @ ''45 4500 4950''"
       and ?d1.0 = "''45''" and ?d2.0 = "''4500''" and ?d3.0 = "''4950''" and rt = no_dates]
    h
  have "fget (parseFormRecord no_dates (''a'' @ [CHR 0x0A] @ ''b'' @ [CHR 0x0A] @ ''45 4500 4950''))
          ''BASIC AMOUNT'' = scaled_basic ''45''"
    and "fget (parseFormRecord no_dates (''a'' @ [CHR 0x0A] @ ''b'' @ [CHR 0x0A] @ ''45 4500 4950''))
          ''INSURANCE AMOUNT'' = ''4500''"
    and "fget (parseFormRecord no_dates (''a'' @ [CHR 0x0A] @ ''b'' @ [CHR 0x0A] @ ''45 4500 4950''))
          ''TOTAL AMOUNT'' = ''4950''"
    by blast+
  with v h(1,2) show ?thesis by (simp only:) 
qed

text \<open>
  C4, at a failing input. The second of the lines \<^verbatim>\<open>hello\<close> and \<^verbatim>\<open>x@y 1/2/2000\<close>
  matches no primary or secondary pattern; in the third pass it passes both the e-mail
  test and the date test, and each appends its index. The list of starts is \<open>[1, 1]\<close>, the
  first span is empty, and the orchestrator returns two records, the first one parsed from
  the empty text.
\<close>

theorem duplicate_start_index:
  "segment [''hello'', ''x@y 1/2/2000''] = Some [1, 1]
   \<and> spans [''hello'', ''x@y 1/2/2000''] [1, 1] = [(1, 1), (1, 2)]
   \<and> parseFormData no_dates (''hello'' @ [CHR 0x0A] @ ''x@y 1/2/2000'')
       = Inr [parseFormRecord no_dates [], parseFormRecord no_dates ''x@y 1/2/2000'']"
  by code_simp

text \<open>
  C6, as the code has it. The table of record 1047 has 22 entries: the schema without
  RECORD NO and REMARK. For the text \<^verbatim>\<open>1047\<close> the remark is empty after extraction, the
  table has no value for it, and it is empty in the record returned.
\<close>

theorem remark_counterexample:
  "fget (extract_fields (clean_lines ''1047'')) ''RECORD NO'' = ''1047''
   \<and> fget (derive_fields no_dates (extract_fields (clean_lines ''1047''))) ''REMARK'' = []
   \<and> map_of known_1047 ''REMARK'' = None
   \<and> fget (parseFormRecord no_dates ''1047'') ''REMARK'' = []"
  by code_simp

text \<open>
  C6, amended. For every parsed record whose extracted RECORD NO is \<^verbatim>\<open>1047\<close>, each of
  the 22 fields of the table of record 1047 that is still empty when the table is applied
  (after the extraction from the lines and the derived values) has the table's literal in
  the record returned: an empty CUSTOMER NAME becomes \<^verbatim>\<open>Caldwell Jesse\<close>. The record
  number stays \<^verbatim>\<open>1047\<close>, and REMARK, which has no entry, stays empty.
\<close>

theorem known_1047_fills:
  assumes "fget (extract_fields (clean_lines text)) ''RECORD NO'' = ''1047''"
    and "(k, v) \<in> set known_1047"
    and "fget (derive_fields rt (extract_fields (clean_lines text))) k = []"
  shows "fget (parseFormRecord rt text) k = v
         \<and> fget (parseFormRecord rt text) ''RECORD NO'' = ''1047''
         \<and> fget (parseFormRecord rt text) ''REMARK'' = []"
  using fill_from_1047 [OF assms] assms(1) by (simp add: record_no_parse remark_parse)

theorem known_1047_fills_witness:
  "fget (extract_fields (clean_lines ''1047'')) ''RECORD NO'' = ''1047''
   \<and> (''CUSTOMER NAME'', ''Caldwell Jesse'') \<in> set known_1047
   \<and> fget (derive_fields no_dates (extract_fields (clean_lines ''1047''))) ''CUSTOMER NAME'' = []
   \<and> fget (parseFormRecord no_dates ''1047'') ''CUSTOMER NAME'' = ''Caldwell Jesse''"
proof -
  have h: "fget (extract_fields (clean_lines ''1047'')) ''RECORD NO'' = ''1047''"
    "(''CUSTOMER NAME'', ''Caldwell Jesse'') \<in> set known_1047"
    "fget (derive_fields no_dates (extract_fields (clean_lines ''1047''))) ''CUSTOMER NAME'' = []"
    by code_simp+
  from known_1047_fills [OF h] h show ?thesis by blast
qed

text \<open>
  C8, as the code has it. \<^verbatim>\<open>formatDate\<close> trims its input and collapses white space
  before it looks for a date, and it returns that text when no form matches: \<^verbatim>\<open>a  b\<close>
  with two spaces matches none of the three forms and comes back with one space. The
  browser copy has a fourth form: \<^verbatim>\<open>June 2007\<close> matches none of the three and becomes
  \<^verbatim>\<open>06/15/2007\<close>.
\<close>

theorem unchanged_counterexample:
  "text_date ''a b'' = None \<and> us_date ''a b'' = None \<and> eu_date ''a b'' = None
   \<and> formatDate ''a  b'' = ''a b''
   \<and> text_date ''June 2007'' = None \<and> us_date ''June 2007'' = None \<and> eu_date ''June 2007'' = None
   \<and> formatDate_client ''June 2007'' = ''06/15/2007''"
  by code_simp

text \<open>
  C8, amended. For every input for which none of the three branches (textual Month Day
  Year with a month of the table, numeric M/D/Y, numeric D.M.Y or D-M-Y) returns,
  \<^verbatim>\<open>formatDate\<close> of the server module returns the input trimmed, with every run of white
  space collapsed to one space; the browser copy does so when its fourth branch (Month
  Year) does not return either. Every input without a digit is such an input for both
  functions, and for an input without white space the text returned is the input itself.
  The functions are total: they never throw.
\<close>

theorem formatDate_fallback:
  "(text_date (collapse_ws (trim s)) = None \<and> us_date (collapse_ws (trim s)) = None
      \<and> eu_date (collapse_ws (trim s)) = None
      \<longrightarrow> formatDate s = collapse_ws (trim s)
          \<and> (month_year_date (collapse_ws (trim s)) = None
               \<longrightarrow> formatDate_client s = collapse_ws (trim s)))
   \<and> (list_all (\<lambda>c. \<not> is_digit c) s
        \<longrightarrow> formatDate s = collapse_ws (trim s) \<and> formatDate_client s = collapse_ws (trim s))
   \<and> (list_all (\<lambda>c. \<not> is_space c) s \<longrightarrow> collapse_ws (trim s) = s)"
proof -
  have a: "formatDate s = collapse_ws (trim s)"
    if "text_date (collapse_ws (trim s)) = None" "us_date (collapse_ws (trim s)) = None"
      "eu_date (collapse_ws (trim s)) = None"
    using that by (simp add: formatDate_def Let_def)
  have b: "formatDate s = collapse_ws (trim s)" if "list_all (\<lambda>c. \<not> is_digit c) s"
    using no_digit_no_date [OF that] by (rule a)
  have b': "formatDate_client s = collapse_ws (trim s)" if "list_all (\<lambda>c. \<not> is_digit c) s"
    using no_digit_no_date [OF that] no_digit_no_month_year [OF that] by (rule client_fallback)
  have c: "collapse_ws (trim s) = s" if "list_all (\<lambda>c. \<not> is_space c) s"
    using that by (simp add: trim_no_space collapse_no_space)
  from a b b' c client_fallback [of s] show ?thesis by blast
qed

theorem formatDate_fallback_witness:
  "text_date (collapse_ws (trim ''n/a'')) = None
   \<and> us_date (collapse_ws (trim ''n/a'')) = None
   \<and> eu_date (collapse_ws (trim ''n/a'')) = None
   \<and> month_year_date (collapse_ws (trim ''n/a'')) = None
   \<and> list_all (\<lambda>c. \<not> is_digit c) ''n/a''
   \<and> list_all (\<lambda>c. \<not> is_space c) ''n/a''
   \<and> formatDate ''n/a'' = ''n/a'' \<and> formatDate_client ''n/a'' = ''n/a''"
proof -
  have h: "text_date (collapse_ws (trim ''n/a'')) = None"
    "us_date (collapse_ws (trim ''n/a'')) = None"
    "eu_date (collapse_ws (trim ''n/a'')) = None"
    "month_year_date (collapse_ws (trim ''n/a'')) = None"
    "list_all (\<lambda>c. \<not> is_digit c) ''n/a''"
    "list_all (\<lambda>c. \<not> is_space c) ''n/a''"
    by code_simp+
  from formatDate_fallback [of "''n/a''"] h
  have "formatDate ''n/a'' = ''n/a''" "formatDate_client ''n/a'' = ''n/a''" by metis+
  with h show ?thesis by blast
qed

text \<open>
  C7. \<^verbatim>\<open>generateInitials\<close> maps \<^verbatim>\<open>John Stuart\<close> to \<^verbatim>\<open>J.S.\<close>. For every name, a token
  that equals one of the suffixes jr, sr, ii, iii, iv, v, vi without regard to case
  contributes itself and a period to the result, which is the concatenation, without
  separator, of the initials of the tokens in their order; so \<^verbatim>\<open>Robert Jr Smith\<close> gives
  \<^verbatim>\<open>R.Jr.S.\<close>.
\<close>

theorem initials_keep_suffix:
  "generateInitials ''John Stuart'' = ''J.S.''
   \<and> generateInitials ''Robert Jr Smith'' = ''R.Jr.S.''
   \<and> (name_parts name = front @ [tok] @ back \<and> List.member suffixes (toLowerCase tok)
        \<longrightarrow> generateInitials name
              = concat (map initial_of front) @ tok @ ''.'' @ concat (map initial_of back))"
proof -
  have a: "generateInitials ''John Stuart'' = ''J.S.''" by code_simp
  have b: "generateInitials ''Robert Jr Smith'' = ''R.Jr.S.''" by code_simp
  have c: "generateInitials name
             = concat (map initial_of front) @ tok @ ''.'' @ concat (map initial_of back)"
    if parts: "name_parts name = front @ [tok] @ back"
      and sfx: "List.member suffixes (toLowerCase tok)"
  proof -
    from parts have ne: "trim name \<noteq> []"
      using name_parts_blank [of name] by auto
    show ?thesis
    proof (cases "length (name_parts name) = 1 \<and> length (hd (name_parts name)) = 1")
      case True
      with parts have "front = []" "back = []" by (auto simp: length_Suc_conv)
      with True parts ne show ?thesis
        by (simp add: generateInitials_def Let_def)
    next
      case False
      with ne parts show ?thesis
        by (simp add: generateInitials_def Let_def concat_filter_nonempty initial_of_suffix [OF sfx])
    qed
  qed
  from a b c show ?thesis by blast
qed

theorem initials_keep_suffix_witness:
  "name_parts ''Mary Smith III'' = [''Mary'', ''Smith''] @ [''III''] @ []
   \<and> List.member suffixes (toLowerCase ''III'')
   \<and> generateInitials ''Mary Smith III'' = ''M.S.III.''"
proof -
  have h: "name_parts ''Mary Smith III'' = [''Mary'', ''Smith''] @ [''III''] @ []"
    "List.member suffixes (toLowerCase ''III'')"
    by code_simp+
  have v: "concat (map initial_of [''Mary'', ''Smith'']) @ ''III'' @ ''.'' @ concat (map initial_of []) = ''M.S.III.''"
    by code_simp
  from initials_keep_suffix [of "''Mary Smith III''" "[''Mary'', ''Smith'']" "''III''" "[]"] h
  have "generateInitials ''Mary Smith III''
          = concat (map initial_of [''Mary'', ''Smith'']) @ ''III'' @ ''.'' @ concat (map initial_of [])"
    by blast
  with v h show ?thesis by simp
qed

text \<open>
  C5, as the code has it. The year of the European form has two to four digits and is
  printed as a number, without padding. \<^verbatim>\<open>28.1.200\<close> and \<^verbatim>\<open>28.1.0999\<close> are inputs of the
  form; their results \<^verbatim>\<open>01/28/200\<close> and \<^verbatim>\<open>01/28/999\<close> have a year of three digits and
  are not of the form \<^verbatim>\<open>MM/DD/YYYY\<close>.
\<close>

theorem european_year_counterexample:
  "re_match False euDateRegex ''28.1.200'' \<noteq> None
   \<and> formatDate ''28.1.200'' = ''01/28/200''
   \<and> \<not> canonical (formatDate ''28.1.200'')
   \<and> re_match False euDateRegex ''28.1.0999'' \<noteq> None
   \<and> formatDate ''28.1.0999'' = ''01/28/999''
   \<and> \<not> canonical (formatDate ''28.1.0999'')
   \<and> formatDate_client ''28.1.200'' = ''01/28/200''"
  by code_simp

text \<open>
  C5, amended. An input of the European numeric form is a group of one or two digits, a
  dot or a hyphen, a second such group, a dot or a hyphen, and a year of two to four
  digits. For every such input: if the first group exceeds 12 and the second is at most
  12, \<^verbatim>\<open>formatDate\<close> puts the second group in the month slot and the first in the day
  slot; otherwise it puts the first group in the month slot and the second in the day
  slot. Both slots have two digits, and the year follows as a number, a year below 100
  moved to 19xx or 20xx. The result has the form \<^verbatim>\<open>MM/DD/YYYY\<close> exactly when the year
  read as a number is below 100 or at least 1000; it is so for every year of two digits
  and every year of four digits without a leading zero. The browser copy returns the same
  text. In particular \<^verbatim>\<open>28.1.2001\<close> gives \<^verbatim>\<open>01/28/2001\<close>.
\<close>

theorem european_date:
  assumes "list_all is_digit d" "1 \<le> length d" "length d \<le> 2"
    and "list_all is_digit m" "1 \<le> length m" "length m \<le> 2"
    and "list_all is_digit y" "2 \<le> length y" "length y \<le> 4"
    and "s1 = CHR ''.'' \<or> s1 = CHR ''-''" "s2 = CHR ''.'' \<or> s2 = CHR ''-''"
  shows "formatDate (d @ [s1] @ m @ [s2] @ y) =
           (if 12 < parseInt d \<and> parseInt m \<le> 12
            then padStart2 (toString (parseInt m)) @ ''/'' @ padStart2 (toString (parseInt d))
                 @ ''/'' @ toString (expand_year (parseInt y))
            else padStart2 (toString (parseInt d)) @ ''/'' @ padStart2 (toString (parseInt m))
                 @ ''/'' @ toString (expand_year (parseInt y)))
         \<and> length (padStart2 (toString (parseInt d))) = 2
         \<and> length (padStart2 (toString (parseInt m))) = 2
         \<and> canonical (formatDate (d @ [s1] @ m @ [s2] @ y)) = (parseInt y < 100 \<or> 1000 \<le> parseInt y)
         \<and> (length y = 2 \<or> (length y = 4 \<and> hd y \<noteq> CHR ''0'')
              \<longrightarrow> canonical (formatDate (d @ [s1] @ m @ [s2] @ y)))
         \<and> formatDate_client (d @ [s1] @ m @ [s2] @ y) = formatDate (d @ [s1] @ m @ [s2] @ y)
         \<and> formatDate ''28.1.2001'' = ''01/28/2001''"
proof -
  have sep: "is_sep s1" "is_sep s2"
    using assms(10,11) by (simp_all add: is_sep_def)
  have small: "digits_val d < 100" "digits_val m < 100"
    using assms(1,3,4,6) by (simp_all add: digits_val_two)
  then have two: "length (padStart2 (toString (digits_val d))) = 2"
    "length (padStart2 (toString (digits_val m))) = 2"
    by (simp_all add: length_pad_two)
  note fd = formatDate_eu [OF assms(1-9) sep]
  note cl = client_eu [OF assms(1-9) sep]
  note yr = digits_val_year [OF assms(7,9)]
  have iff: "canonical (formatDate (d @ s1 # m @ s2 # y)) = (digits_val y < 100 \<or> 1000 \<le> digits_val y)"
    unfolding fd using small yr by (simp add: canonical_eu_year)
  have can: "canonical (formatDate (d @ s1 # m @ s2 # y))"
    if "length y = 2 \<or> (length y = 4 \<and> hd y \<noteq> CHR ''0'')"
  proof -
    from year_in_range [OF assms(7) that]
    have "1000 \<le> expand_year (digits_val y)" "expand_year (digits_val y) < 10000" by simp_all
    with small show ?thesis
      unfolding fd by (simp add: canonical_slashed)
  qed
  have ex: "formatDate ''28.1.2001'' = ''01/28/2001''" by code_simp
  from fd two ex can cl iff show ?thesis
    using assms(1,4,7) by (simp add: parseInt_digits slashed_def)
qed

theorem european_date_witness:
  "formatDate (''7'' @ [CHR ''-''] @ ''13'' @ [CHR ''.''] @ ''99'') = ''07/13/1999''
   \<and> length ''99'' = 2 \<and> parseInt ''99'' < 100
   \<and> canonical (formatDate (''7'' @ [CHR ''-''] @ ''13'' @ [CHR ''.''] @ ''99''))
   \<and> formatDate_client (''7'' @ [CHR ''-''] @ ''13'' @ [CHR ''.''] @ ''99'') = ''07/13/1999''"
proof -
  have h: "list_all is_digit ''7''" "1 \<le> length ''7''" "length ''7'' \<le> 2"
    "list_all is_digit ''13''" "1 \<le> length ''13''" "length ''13'' \<le> 2"
    "list_all is_digit ''99''" "2 \<le> length ''99''" "length ''99'' \<le> 4"
    "CHR ''-'' = CHR ''.'' \<or> CHR ''-'' = CHR ''-''" "CHR ''.'' = CHR ''.'' \<or> CHR ''.'' = CHR ''-''"
    by code_simp+
  have v: "(if 12 < parseInt ''7'' \<and> parseInt ''13'' \<le> 12
            then padStart2 (toString (parseInt ''13'')) @ ''/'' @ padStart2 (toString (parseInt ''7''))
                 @ ''/'' @ toString (expand_year (parseInt ''99''))
            else padStart2 (toString (parseInt ''7'')) @ ''/'' @ padStart2 (toString (parseInt ''13''))
                 @ ''/'' @ toString (expand_year (parseInt ''99''))) = ''07/13/1999''"
    by code_simp
  have l: "length ''99'' = 2" "parseInt ''99'' < 100" by code_simp+
  from european_date [OF h] l
  have "formatDate (''7'' @ [CHR ''-''] @ ''13'' @ [CHR ''.''] @ ''99'') =
          (if 12 < parseInt ''7'' \<and> parseInt ''13'' \<le> 12
            then padStart2 (toString (parseInt ''13'')) @ ''/'' @ padStart2 (toString (parseInt ''7''))
                 @ ''/'' @ toString (expand_year (parseInt ''99''))
            else padStart2 (toString (parseInt ''7'')) @ ''/'' @ padStart2 (toString (parseInt ''13''))
                 @ ''/'' @ toString (expand_year (parseInt ''99'')))"
    and "canonical (formatDate (''7'' @ [CHR ''-''] @ ''13'' @ [CHR ''.''] @ ''99''))"
    and "formatDate_client (''7'' @ [CHR ''-''] @ ''13'' @ [CHR ''.''] @ ''99'')
           = formatDate (''7'' @ [CHR ''-''] @ ''13'' @ [CHR ''.''] @ ''99'')"
    by blast+
  with v l show ?thesis by (simp only:)
qed

text \<open>
  C9. \<^verbatim>\<open>formatDate\<close> is idempotent on its canonical outputs: for every input whose
  result has the zero-padded form \<^verbatim>\<open>MM/DD/YYYY\<close>, formatting the result again gives the
  same text. This holds for the server's function and for the browser's copy of it.
\<close>

theorem formatDate_idempotent:
  "(canonical (formatDate x) \<longrightarrow> formatDate (formatDate x) = formatDate x)
   \<and> (canonical (formatDate_client x)
        \<longrightarrow> formatDate_client (formatDate_client x) = formatDate_client x)"
proof -
  have server: "formatDate (formatDate x) = formatDate x" if c: "canonical (formatDate x)" for x
  proof (cases "trim x = []")
    case True
    with c show ?thesis by (simp add: formatDate_def)
  next
    case False
    let ?n = "collapse_ws (trim x)"
    have sl: "formatDate (formatDate x) = formatDate x"
      if "formatDate x = r" "\<exists>m d yr. r = slashed m d yr" for r
    proof -
      from that obtain m d yr where "formatDate x = slashed m d yr" by blast
      with c slashed_idem [of m d yr] show ?thesis by simp
    qed
    show ?thesis
    proof (cases "text_date ?n")
      case (Some r)
      with False have "formatDate x = r" by (simp add: formatDate_def Let_def)
      then show ?thesis using branch_slashed(1) [OF Some] by (rule sl)
    next
      case t: None
      show ?thesis
      proof (cases "us_date ?n")
        case (Some r)
        with False t have "formatDate x = r" by (simp add: formatDate_def Let_def)
        then show ?thesis using branch_slashed(2) [OF Some] by (rule sl)
      next
        case u: None
        show ?thesis
        proof (cases "eu_date ?n")
          case (Some r)
          with False t u have "formatDate x = r" by (simp add: formatDate_def Let_def)
          then show ?thesis using branch_slashed(3) [OF Some] by (rule sl)
        next
          case None
          with False t u have "formatDate x = ?n" by (simp add: formatDate_def Let_def)
          with c have "canonical ?n" by simp
          from canonical_us [OF this] u show ?thesis by simp
        qed
      qed
    qed
  qed
  have client: "formatDate_client (formatDate_client x) = formatDate_client x"
    if c: "canonical (formatDate_client x)"
  proof -
    from client_result [of x] have "formatDate (formatDate_client x) = formatDate_client x"
    proof
      assume "formatDate_client x = formatDate x"
      with c server [of x] show ?thesis by simp
    next
      assume "\<exists>m yr. formatDate_client x = slashed m 15 yr"
      then obtain m yr where "formatDate_client x = slashed m 15 yr" by blast
      with c slashed_idem [of m 15 yr] show ?thesis by simp
    qed
    with canonical_client [OF c] show ?thesis by simp
  qed
  from server client show ?thesis by blast
qed

theorem formatDate_idempotent_witness:
  "canonical (formatDate ''June 4 2007'') \<and> formatDate ''June 4 2007'' = ''06/04/2007''
   \<and> formatDate (formatDate ''June 4 2007'') = ''06/04/2007''
   \<and> canonical (formatDate_client ''June 2007'') \<and> formatDate_client ''June 2007'' = ''06/15/2007''
   \<and> formatDate_client (formatDate_client ''June 2007'') = ''06/15/2007''"
proof -
  have h: "canonical (formatDate ''June 4 2007'')" by code_simp
  have v: "formatDate ''June 4 2007'' = ''06/04/2007''" by code_simp
  have h': "canonical (formatDate_client ''June 2007'')" by code_simp
  have v': "formatDate_client ''June 2007'' = ''06/15/2007''" by code_simp
  from formatDate_idempotent [of "''June 4 2007''"] h v
  have a: "formatDate (formatDate ''June 4 2007'') = ''06/04/2007''" by simp
  from formatDate_idempotent [of "''June 2007''"] h' v'
  have b: "formatDate_client (formatDate_client ''June 2007'') = ''06/15/2007''" by simp
  from h v h' v' a b show ?thesis by (simp only:) 
qed

end
